theory Spec2Isabelle
  imports Complex_Main "HOL-Library.Word"
begin

section \<open>Data model\<close>

text \<open>
  The generators of \<^verbatim>\<open>main.cpp\<close> keep their state in \<^verbatim>\<open>unsigned long long\<close> fields:
  64-bit words, on which \<open>+\<close>, \<open>-\<close> and \<open>*\<close> wrap around modulo \<open>2 ^ 64\<close> and \<open>div\<close>,
  \<open>mod\<close> and \<open><\<close> are unsigned. A \<^verbatim>\<open>double\<close> is modelled as a real number (the ideal
  arithmetic of the specification's data model); where IEEE arithmetic yields a value that
  is no real number, or where its rounding decides a result, the model says so at that
  place: the operations of the difference-combine generator and of \<^verbatim>\<open>histogram\<close> are
  rounded to binary64 one by one.

  C++ leaves an integer division by zero and an out-of-range vector index undefined, and
  the vector constructor throws on a negative length; each is a value of \<open>error\<close> here.
  Several classes name their fields \<^verbatim>\<open>m\<close>, \<^verbatim>\<open>a\<close>, \<^verbatim>\<open>c\<close>, \<^verbatim>\<open>x\<close>; the record fields carry
  a prefix that tells them apart. A constructor \<^verbatim>\<open>C(...)\<close> is the function \<open>C_init\<close>, a method
  \<^verbatim>\<open>C::getNext\<close> the function \<open>C_getNext\<close>, which returns the value together with the
  object after the call. \<^verbatim>\<open>ThreeSigmaGenerator\<close> and the menu of \<^verbatim>\<open>main\<close> are not modelled.
\<close>

type_synonym u64 = "64 word"

type_synonym double = real

datatype error =
  DivisionByZero | IndexOutOfRange | LengthError | UndefinedConversion | SignedOverflow

text \<open>\<^verbatim>\<open>static_cast<double>(x)\<close> of an unsigned 64-bit value.\<close>

definition to_double :: "u64 \<Rightarrow> double" where
  "to_double w = real (unat w)"

subsection \<open>Linear congruential generator\<close>

record LinearCongruentialGenerator =
  lcg_m :: u64
  lcg_a :: u64
  lcg_c :: u64
  lcg_x :: u64

definition LinearCongruentialGenerator_init ::
  "u64 \<Rightarrow> u64 \<Rightarrow> u64 \<Rightarrow> u64 \<Rightarrow> LinearCongruentialGenerator" where
  "LinearCongruentialGenerator_init m a c seed =
     \<lparr>lcg_m = m, lcg_a = a, lcg_c = c, lcg_x = seed\<rparr>"

definition LinearCongruentialGenerator_getNext ::
  "LinearCongruentialGenerator \<Rightarrow> error + (double \<times> LinearCongruentialGenerator)" where
  "LinearCongruentialGenerator_getNext g =
     (if lcg_m g = 0 then Inl DivisionByZero
      else let x = (lcg_a g * lcg_x g + lcg_c g) mod lcg_m g
           in Inr (to_double x / to_double (lcg_m g), g\<lparr>lcg_x := x\<rparr>))"

subsection \<open>Quadratic congruential generator\<close>

record QuadraticCongruentialGenerator =
  qcg_m :: u64
  qcg_a :: u64
  qcg_c :: u64
  qcg_d :: u64
  qcg_x :: u64

definition QuadraticCongruentialGenerator_init ::
  "u64 \<Rightarrow> u64 \<Rightarrow> u64 \<Rightarrow> u64 \<Rightarrow> u64 \<Rightarrow> QuadraticCongruentialGenerator" where
  "QuadraticCongruentialGenerator_init m a c d seed =
     \<lparr>qcg_m = m, qcg_a = a, qcg_c = c, qcg_d = d, qcg_x = seed\<rparr>"

definition QuadraticCongruentialGenerator_getNext ::
  "QuadraticCongruentialGenerator \<Rightarrow> error + (double \<times> QuadraticCongruentialGenerator)" where
  "QuadraticCongruentialGenerator_getNext g =
     (if qcg_m g = 0 then Inl DivisionByZero
      else let x = (qcg_d g * qcg_x g * qcg_x g + qcg_a g * qcg_x g + qcg_c g) mod qcg_m g
           in Inr (to_double x / to_double (qcg_m g), g\<lparr>qcg_x := x\<rparr>))"

subsection \<open>Additive (Fibonacci) generator\<close>

record FibonacciGenerator =
  fib_m :: u64
  fib_x1 :: u64
  fib_x2 :: u64

text \<open>The constructor sets \<open>(x1, x2)\<close> to \<open>(0, 1)\<close> and then overwrites \<open>x1\<close> by a nonzero seed.\<close>

definition FibonacciGenerator_init :: "u64 \<Rightarrow> u64 \<Rightarrow> FibonacciGenerator" where
  "FibonacciGenerator_init m seed =
     (let g = \<lparr>fib_m = m, fib_x1 = 0, fib_x2 = 1\<rparr>
      in if seed \<noteq> 0 then g\<lparr>fib_x1 := seed\<rparr> else g)"

definition FibonacciGenerator_getNext ::
  "FibonacciGenerator \<Rightarrow> error + (double \<times> FibonacciGenerator)" where
  "FibonacciGenerator_getNext g =
     (if fib_m g = 0 then Inl DivisionByZero
      else let nextValue = (fib_x1 g + fib_x2 g) mod fib_m g
           in Inr (to_double nextValue / to_double (fib_m g),
                   g\<lparr>fib_x1 := fib_x2 g, fib_x2 := nextValue\<rparr>))"

subsection \<open>Inverse congruential generator\<close>

text \<open>
  The loop of \<^verbatim>\<open>modInverse\<close> on its four variables. Every variable is unsigned, so
  \<open>x1 - q * x0\<close> wraps. The loop divides by \<open>m\<close>; once \<open>m\<close> is \<open>0\<close> while \<open>a\<close> is still
  above \<open>1\<close> the division is by zero.
\<close>

function modInverse_loop :: "u64 \<Rightarrow> u64 \<Rightarrow> u64 \<Rightarrow> u64 \<Rightarrow> error + u64" where
  "modInverse_loop a m x0 x1 =
     (if 1 < a then
        (if m = 0 then Inl DivisionByZero
         else modInverse_loop m (a mod m) (x1 - (a div m) * x0) x0)
      else Inr x1)"
  by pat_completeness auto
termination
  by (relation "measure (\<lambda>(a, m, x0, x1). unat m)")
     (auto simp: unat_mod word_neq_0_conv unat_gt_0)

declare modInverse_loop.simps [simp del]

text \<open>
  After the loop the source tests \<^verbatim>\<open>x1 < 0\<close> on the unsigned \<open>x1\<close> and adds the original
  modulus if the test succeeds.
\<close>

definition modInverse :: "u64 \<Rightarrow> u64 \<Rightarrow> error + u64" where
  "modInverse a m =
     (case modInverse_loop a m 0 1 of
        Inl e \<Rightarrow> Inl e
      | Inr x1 \<Rightarrow> Inr (if x1 < 0 then x1 + m else x1))"

record InverseCongruentialGenerator =
  icg_p :: u64
  icg_a :: u64
  icg_c :: u64
  icg_x :: u64

definition InverseCongruentialGenerator_init ::
  "u64 \<Rightarrow> u64 \<Rightarrow> u64 \<Rightarrow> u64 \<Rightarrow> InverseCongruentialGenerator" where
  "InverseCongruentialGenerator_init p a c seed =
     \<lparr>icg_p = p, icg_a = a, icg_c = c, icg_x = seed\<rparr>"

definition InverseCongruentialGenerator_getNext ::
  "InverseCongruentialGenerator \<Rightarrow> error + (double \<times> InverseCongruentialGenerator)" where
  "InverseCongruentialGenerator_getNext g =
     (case modInverse (icg_x g) (icg_p g) of
        Inl e \<Rightarrow> Inl e
      | Inr inv_x \<Rightarrow>
          (if icg_p g = 0 then Inl DivisionByZero
           else let x = (icg_a g * inv_x + icg_c g) mod icg_p g
                in Inr (to_double x / to_double (icg_p g), g\<lparr>icg_x := x\<rparr>)))"

subsection \<open>Difference-combine generator\<close>

text \<open>
  \<^verbatim>\<open>x - y\<close> and \<^verbatim>\<open>difference += 1.0\<close> are IEEE 754 binary64 operations: the exact result
  rounded to the nearest representable value, ties to the even significand. Whether the
  result of this class stays below \<open>1\<close> depends on that rounding, so it is modelled:
  a binary64 value is \<open>k * 2 ^ e\<close> with \<open>\<bar>k\<bar> < 2 ^ 53\<close> and \<open>- 1074 \<le> e\<close>; a nonzero real
  \<open>r\<close> with \<open>2 ^ E \<le> \<bar>r\<bar> < 2 ^ (E + 1)\<close> is rounded to a multiple of \<open>2 ^ (E - 52)\<close>, or of
  \<open>2 ^ - 1074\<close> in the subnormal range. (The overflow to infinity, for results of magnitude
  \<open>2 ^ 1024\<close> and more, is left out: the values of this class are sums and differences of
  generator outputs.)
\<close>

definition round_even :: "real \<Rightarrow> int" where
  "round_even r =
     (let f = \<lfloor>r\<rfloor>; d = r - of_int f
      in if d < 1 / 2 then f
         else if 1 / 2 < d then f + 1
         else if even f then f else f + 1)"

definition round_double :: "real \<Rightarrow> double" where
  "round_double r =
     (if r = 0 then 0
      else let e = max (\<lfloor>log 2 \<bar>r\<bar>\<rfloor> - 52) (- 1074);
               ulp = 2 powr (of_int e)
           in of_int (round_even (r / ulp)) * ulp)"

text \<open>
  The class holds two \<^verbatim>\<open>Generator*\<close> and calls \<^verbatim>\<open>getNext\<close> on \<open>X\<close>, then on \<open>Y\<close>, through
  the virtual table. The model takes the two \<^verbatim>\<open>getNext\<close> functions and the two states.
\<close>

definition combine_difference :: "double \<Rightarrow> double \<Rightarrow> double" where
  "combine_difference x y =
     (let difference = round_double (x - y)
      in if difference < 0 then round_double (difference + 1) else difference)"

definition CombineMethodgenerator_getNext ::
  "('sx \<Rightarrow> error + (double \<times> 'sx)) \<Rightarrow> ('sy \<Rightarrow> error + (double \<times> 'sy)) \<Rightarrow>
   'sx \<times> 'sy \<Rightarrow> error + (double \<times> ('sx \<times> 'sy))" where
  "CombineMethodgenerator_getNext X_getNext Y_getNext s =
     (case X_getNext (fst s) of
        Inl e \<Rightarrow> Inl e
      | Inr (x, sx) \<Rightarrow>
          (case Y_getNext (snd s) of
             Inl e \<Rightarrow> Inl e
           | Inr (y, sy) \<Rightarrow> Inr (combine_difference x y, (sx, sy))))"

subsection \<open>Polar generator\<close>

text \<open>
  A double that may be NaN. In \<^verbatim>\<open>PolarCoordinateGenerator::getNext\<close> the factor
  \<^verbatim>\<open>sqrt(-2 log(s) / s)\<close> is infinite exactly when \<open>s = 0\<close>, which happens only for
  \<open>v1 = v2 = 0\<close>, and the products \<open>0 * \<infinity>\<close> are NaN. Every comparison with NaN is false.
\<close>

datatype fp = Finite double | NaN

fun fp_positive :: "fp \<Rightarrow> bool" where
  "fp_positive (Finite r) = (0 < r)"
| "fp_positive NaN = False"

text \<open>
  \<^verbatim>\<open>std::rand()\<close> reads and advances a state of the C library. The model passes the values
  it is going to return as a list and returns what is left of it. \<open>polar_uniform\<close> is
  \<^verbatim>\<open>2.0 * static_cast<double>(std::rand()) / 2147483647\<close>. The \<^verbatim>\<open>do ... while\<close> loop takes
  two values per round; on a list that ends before a pair is accepted it has no result.
\<close>

definition polar_uniform :: "int \<Rightarrow> double" where
  "polar_uniform r = 2 * real_of_int r / 2147483647"

fun polar_loop :: "int list \<Rightarrow> (double \<times> double \<times> double \<times> int list) option" where
  "polar_loop (r1 # r2 # rest) =
     (let v1 = polar_uniform r1;
          v2 = polar_uniform r2;
          s = v1 * v1 + v2 * v2
      in if 1 \<le> s then polar_loop rest else Some (v1, v2, s, rest))"
| "polar_loop rs = None"

definition polar_scale :: "double \<Rightarrow> double \<Rightarrow> fp" where
  "polar_scale v s = (if s = 0 then NaN else Finite (v * sqrt ((- 2 * ln s) / s)))"

record PolarCoordinateGenerator =
  polar_last :: fp

definition PolarCoordinateGenerator_init :: PolarCoordinateGenerator where
  "PolarCoordinateGenerator_init = \<lparr>polar_last = Finite (- 1)\<rparr>"

definition PolarCoordinateGenerator_getNext ::
  "PolarCoordinateGenerator \<Rightarrow> int list \<Rightarrow> (fp \<times> PolarCoordinateGenerator \<times> int list) option" where
  "PolarCoordinateGenerator_getNext g rands =
     (if fp_positive (polar_last g) then
        Some (polar_last g, g\<lparr>polar_last := Finite (- 1)\<rparr>, rands)
      else
        (case polar_loop rands of
           None \<Rightarrow> None
         | Some (v1, v2, s, rest) \<Rightarrow>
             Some (polar_scale v1 s, g\<lparr>polar_last := polar_scale v2 s\<rparr>, rest)))"

text \<open>Two consecutive calls: the outputs, the generator and the values of \<^verbatim>\<open>rand\<close> left.\<close>

definition polar_two_calls ::
  "PolarCoordinateGenerator \<Rightarrow> int list \<Rightarrow> (fp \<times> fp \<times> PolarCoordinateGenerator \<times> int list) option" where
  "polar_two_calls g rands =
     (case PolarCoordinateGenerator_getNext g rands of
        None \<Rightarrow> None
      | Some (out1, g1, rest1) \<Rightarrow>
          (case PolarCoordinateGenerator_getNext g1 rest1 of
             None \<Rightarrow> None
           | Some (out2, g2, rest2) \<Rightarrow> Some (out1, out2, g2, rest2)))"

subsection \<open>Histogram\<close>

text \<open>
  The samples and the two bounds of \<^verbatim>\<open>histogram\<close> are finite doubles, given as real numbers.
  Every arithmetic operation of the function is a binary64 operation and is rounded on its
  own; its result can be infinite (a rounded magnitude of \<open>2 ^ 1024\<close> or more, a nonzero
  value divided by zero) or NaN (\<open>0 / 0\<close>, \<open>\<infinity> / \<infinity>\<close>, \<open>\<infinity> - \<infinity>\<close>, \<open>0 * \<infinity>\<close>). \<open>Infinity True\<close> is \<open>+\<infinity>\<close>,
  \<open>Infinity False\<close> is \<open>-\<infinity>\<close>, \<open>Invalid\<close> is NaN. The two zeros of binary64 are one value here: a
  zero divisor counts as \<open>+0\<close>. In \<^verbatim>\<open>histogram\<close> the divisors are the number of intervals,
  the number of samples (both \<open>+0\<close> when zero) and the interval size, which can be \<open>-0\<close>
  only when \<open>maxRange \<le> minRange\<close>, where a sample in the range has the numerator \<open>0\<close> and
  the quotient is NaN for either zero.
\<close>

datatype ieee = Num double | Infinity bool | Invalid

definition ieee_round :: "real \<Rightarrow> ieee" where
  "ieee_round r =
     (let d = round_double r
      in if 2 ^ 1024 \<le> \<bar>d\<bar> then Infinity (0 < d) else Num d)"

fun ieee_add :: "ieee \<Rightarrow> ieee \<Rightarrow> ieee" where
  "ieee_add (Num a) (Num b) = ieee_round (a + b)"
| "ieee_add (Infinity s) (Infinity t) = (if s = t then Infinity s else Invalid)"
| "ieee_add (Infinity s) (Num b) = Infinity s"
| "ieee_add (Num a) (Infinity t) = Infinity t"
| "ieee_add x y = Invalid"

fun ieee_sub :: "ieee \<Rightarrow> ieee \<Rightarrow> ieee" where
  "ieee_sub (Num a) (Num b) = ieee_round (a - b)"
| "ieee_sub (Infinity s) (Infinity t) = (if s = t then Invalid else Infinity s)"
| "ieee_sub (Infinity s) (Num b) = Infinity s"
| "ieee_sub (Num a) (Infinity t) = Infinity (\<not> t)"
| "ieee_sub x y = Invalid"

fun ieee_mul :: "ieee \<Rightarrow> ieee \<Rightarrow> ieee" where
  "ieee_mul (Num a) (Num b) = ieee_round (a * b)"
| "ieee_mul (Infinity s) (Infinity t) = Infinity (s = t)"
| "ieee_mul (Infinity s) (Num b) = (if b = 0 then Invalid else Infinity (s = (0 < b)))"
| "ieee_mul (Num a) (Infinity t) = (if a = 0 then Invalid else Infinity (t = (0 < a)))"
| "ieee_mul x y = Invalid"

fun ieee_div :: "ieee \<Rightarrow> ieee \<Rightarrow> ieee" where
  "ieee_div (Num a) (Num b) =
     (if b = 0 then (if a = 0 then Invalid else Infinity (0 < a)) else ieee_round (a / b))"
| "ieee_div (Infinity s) (Infinity t) = Invalid"
| "ieee_div (Infinity s) (Num b) = Infinity (s = (0 \<le> b))"
| "ieee_div (Num a) (Infinity t) = Num 0"
| "ieee_div x y = Invalid"

text \<open>
  \<^verbatim>\<open>static_cast<int>\<close> of a double drops the fractional part; the conversion is undefined
  for NaN, for an infinity and for a value whose integer part is no \<^verbatim>\<open>int\<close>.
\<close>

definition double_to_int :: "double \<Rightarrow> int" where
  "double_to_int r = (if 0 \<le> r then \<lfloor>r\<rfloor> else \<lceil>r\<rceil>)"

fun ieee_to_int :: "ieee \<Rightarrow> error + int" where
  "ieee_to_int (Num r) =
     (if - 2147483648 \<le> double_to_int r \<and> double_to_int r \<le> 2147483647
      then Inr (double_to_int r) else Inl UndefinedConversion)"
| "ieee_to_int x = Inl UndefinedConversion"

text \<open>
  \<^verbatim>\<open>(maxRange - minRange) / numIntervals\<close>, computed once, and the index
  \<^verbatim>\<open>static_cast<int>((randomValue - minRange) / intervalSize)\<close> of a sample. The number of
  intervals is an \<^verbatim>\<open>int\<close>, whose conversion to double is exact.
\<close>

definition histogram_intervalSize :: "double \<Rightarrow> double \<Rightarrow> int \<Rightarrow> ieee" where
  "histogram_intervalSize minRange maxRange numIntervals =
     ieee_div (ieee_sub (Num maxRange) (Num minRange)) (Num (real_of_int numIntervals))"

definition histogram_interval :: "double \<Rightarrow> double \<Rightarrow> ieee \<Rightarrow> error + int" where
  "histogram_interval randomValue minRange intervalSize =
     ieee_to_int (ieee_div (ieee_sub (Num randomValue) (Num minRange)) intervalSize)"

text \<open>
  The counting loop over \<^verbatim>\<open>randomValues\<close>. The vector \<^verbatim>\<open>frequencyIntervals\<close> is indexed
  with \<^verbatim>\<open>operator[]\<close>, which does not check the index: a negative index or one from the
  length of the vector on is the error \<open>IndexOutOfRange\<close>. The counters are \<^verbatim>\<open>int\<close>s,
  incremented up to \<open>2 ^ 31 - 1\<close>.
\<close>

fun histogram_loop ::
  "double list \<Rightarrow> double \<Rightarrow> double \<Rightarrow> ieee \<Rightarrow> int list \<Rightarrow> error + int list" where
  "histogram_loop [] minRange maxRange intervalSize frequencyIntervals = Inr frequencyIntervals"
| "histogram_loop (randomValue # rest) minRange maxRange intervalSize frequencyIntervals =
     (if minRange \<le> randomValue \<and> randomValue \<le> maxRange then
        (case histogram_interval randomValue minRange intervalSize of
           Inl e \<Rightarrow> Inl e
         | Inr interval \<Rightarrow>
             if interval < 0 \<or> int (length frequencyIntervals) \<le> interval
             then Inl IndexOutOfRange
             else if frequencyIntervals ! nat interval = 2147483647
             then Inl SignedOverflow
             else histogram_loop rest minRange maxRange intervalSize
                    (frequencyIntervals[nat interval := frequencyIntervals ! nat interval + 1]))
      else histogram_loop rest minRange maxRange intervalSize frequencyIntervals)"

text \<open>
  \<^verbatim>\<open>static_cast<double>(frequencyIntervals[i]) / randomValues.size()\<close>: the counter is
  converted exactly, the size is rounded to a double, and the quotient is NaN on an empty
  sample vector.
\<close>

definition relative_frequency :: "int \<Rightarrow> nat \<Rightarrow> ieee" where
  "relative_frequency k n = ieee_div (Num (real_of_int k)) (ieee_round (real n))"

text \<open>
  The function prints one line per interval; the model returns the lines as triples of
  start, end and frequency, \<^verbatim>\<open>minRange + i * intervalSize\<close>,
  \<^verbatim>\<open>minRange + (i + 1) * intervalSize\<close> and the relative frequency. A negative
  \<open>numIntervals\<close> makes the vector constructor throw before anything else is computed.
\<close>

definition histogram ::
  "double list \<Rightarrow> double \<Rightarrow> double \<Rightarrow> int \<Rightarrow> error + (ieee \<times> ieee \<times> ieee) list" where
  "histogram randomValues minRange maxRange numIntervals =
     (if numIntervals < 0 then Inl LengthError
      else let intervalSize = histogram_intervalSize minRange maxRange numIntervals
           in case histogram_loop randomValues minRange maxRange intervalSize
                     (replicate (nat numIntervals) 0) of
                Inl e \<Rightarrow> Inl e
              | Inr frequencyIntervals \<Rightarrow>
                  Inr (map (\<lambda>i. (ieee_add (Num minRange) (ieee_mul (Num (real i)) intervalSize),
                                  ieee_add (Num minRange) (ieee_mul (Num (real i + 1)) intervalSize),
                                  relative_frequency (frequencyIntervals ! i) (length randomValues)))
                         [0 ..< nat numIntervals]))"

subsection \<open>Drawing a sequence\<close>

text \<open>
  The loop of \<^verbatim>\<open>main\<close> that calls \<^verbatim>\<open>getNext\<close> of the selected generator \<open>n\<close> times and
  appends each value to \<^verbatim>\<open>randomValues\<close> (no call for \<open>n \<le> 0\<close>, so \<open>n\<close> is a natural number
  here).
\<close>

fun generate :: "('s \<Rightarrow> error + (double \<times> 's)) \<Rightarrow> nat \<Rightarrow> 's \<Rightarrow> error + (double list \<times> 's)" where
  "generate getNext 0 g = Inr ([], g)"
| "generate getNext (Suc n) g =
     (case getNext g of
        Inl e \<Rightarrow> Inl e
      | Inr (randomValue, g') \<Rightarrow>
          (case generate getNext n g' of
             Inl e \<Rightarrow> Inl e
           | Inr (randomValues, g'') \<Rightarrow> Inr (randomValue # randomValues, g'')))"

text \<open>
  What the additive generator is compared with: the first \<open>n\<close> terms of the sequence over
  the natural numbers in which each term is the sum of the two before it modulo \<open>m\<close>,
  after the two starting values \<open>x1\<close> and \<open>x2\<close>.
\<close>

fun lagged_sequence :: "nat \<Rightarrow> nat \<Rightarrow> nat \<Rightarrow> nat \<Rightarrow> nat list" where
  "lagged_sequence m x1 x2 0 = []"
| "lagged_sequence m x1 x2 (Suc n) = (x1 + x2) mod m # lagged_sequence m x2 ((x1 + x2) mod m) n"

text \<open>
  What the histogram is compared with: the number of samples that lie in the range and
  whose index is \<open>i\<close>, and the number of samples in the range.
\<close>

definition bin_count :: "double list \<Rightarrow> double \<Rightarrow> double \<Rightarrow> ieee \<Rightarrow> nat \<Rightarrow> nat" where
  "bin_count randomValues minRange maxRange intervalSize i =
     length (filter (\<lambda>v. minRange \<le> v \<and> v \<le> maxRange
                          \<and> histogram_interval v minRange intervalSize = Inr (int i)) randomValues)"

definition in_range_count :: "double list \<Rightarrow> double \<Rightarrow> double \<Rightarrow> nat" where
  "in_range_count randomValues minRange maxRange =
     length (filter (\<lambda>v. minRange \<le> v \<and> v \<le> maxRange) randomValues)"

section \<open>Unsigned arithmetic of the congruential generators\<close>

lemma unat_mod_u64: "unat ((w :: u64) mod m) = unat w mod unat m"
  by (simp add: unat_mod)

text \<open>
  C8 (as the code has it). For every linear congruential generator with a nonzero
  modulus, \<open>getNext\<close> succeeds, stores a new state \<open>x'\<close> and returns \<open>x' / m\<close>. The new state
  is \<open>((a * x + c) mod 2 ^ 64) mod m\<close>: the sum is formed in 64 bits before the reduction.
  It is the mathematical \<open>(a * x + c) mod m\<close> whenever \<open>a * x + c\<close> is below \<open>2 ^ 64\<close>. The
  generator built with \<open>m = 2147483647\<close>, \<open>a = 16807\<close>, \<open>c = 0\<close> and seed \<open>1\<close> returns
  \<open>16807 / 2147483647\<close> on its first call.
\<close>

theorem LinearCongruentialGenerator_getNext_step:
  assumes "lcg_m g \<noteq> 0"
  shows "(\<exists>x'. LinearCongruentialGenerator_getNext g
               = Inr (to_double x' / to_double (lcg_m g), g\<lparr>lcg_x := x'\<rparr>)
          \<and> unat x' = ((unat (lcg_a g) * unat (lcg_x g) + unat (lcg_c g)) mod 2 ^ 64)
                        mod unat (lcg_m g)
          \<and> (unat (lcg_a g) * unat (lcg_x g) + unat (lcg_c g) < 2 ^ 64 \<longrightarrow>
               unat x' = (unat (lcg_a g) * unat (lcg_x g) + unat (lcg_c g)) mod unat (lcg_m g)))
       \<and> LinearCongruentialGenerator_getNext (LinearCongruentialGenerator_init 2147483647 16807 0 1)
           = Inr (16807 / 2147483647, LinearCongruentialGenerator_init 2147483647 16807 0 16807)"
proof (intro exI [of _ "(lcg_a g * lcg_x g + lcg_c g) mod lcg_m g"] conjI impI)
  show "LinearCongruentialGenerator_getNext g =
    Inr (to_double ((lcg_a g * lcg_x g + lcg_c g) mod lcg_m g) / to_double (lcg_m g),
         g\<lparr>lcg_x := (lcg_a g * lcg_x g + lcg_c g) mod lcg_m g\<rparr>)"
    using assms by (simp add: LinearCongruentialGenerator_getNext_def Let_def)
  show wrap: "unat ((lcg_a g * lcg_x g + lcg_c g) mod lcg_m g) =
    (unat (lcg_a g) * unat (lcg_x g) + unat (lcg_c g)) mod 2 ^ 64 mod unat (lcg_m g)"
    by (simp add: unat_mod_u64 unat_word_ariths mod_simps)
  show "LinearCongruentialGenerator_getNext (LinearCongruentialGenerator_init 2147483647 16807 0 1)
          = Inr (16807 / 2147483647, LinearCongruentialGenerator_init 2147483647 16807 0 16807)"
    by (simp add: LinearCongruentialGenerator_getNext_def LinearCongruentialGenerator_init_def
        to_double_def)
  assume "unat (lcg_a g) * unat (lcg_x g) + unat (lcg_c g) < 2 ^ 64"
  then show "unat ((lcg_a g * lcg_x g + lcg_c g) mod lcg_m g) =
    (unat (lcg_a g) * unat (lcg_x g) + unat (lcg_c g)) mod unat (lcg_m g)"
    by (simp add: wrap)
qed

theorem LinearCongruentialGenerator_getNext_step_witness:
  "lcg_m (LinearCongruentialGenerator_init 2147483647 16807 0 282475249) \<noteq> 0
   \<and> unat (16807 :: u64) * unat (282475249 :: u64) + unat (0 :: u64) < 2 ^ 64
   \<and> LinearCongruentialGenerator_getNext (LinearCongruentialGenerator_init 2147483647 16807 0 282475249)
       = Inr (1622650073 / 2147483647, LinearCongruentialGenerator_init 2147483647 16807 0 1622650073)
   \<and> (16807 * 282475249 + 0) mod 2147483647 = (1622650073 :: nat)"
  using LinearCongruentialGenerator_getNext_step
          [of "LinearCongruentialGenerator_init 2147483647 16807 0 282475249"]
  by (simp add: LinearCongruentialGenerator_getNext_def LinearCongruentialGenerator_init_def
      to_double_def)

text \<open>
  The claim C8 as it is stated fails where \<open>a * x + c\<close> reaches \<open>2 ^ 64\<close>: with
  \<open>m = 2 ^ 64 - 1\<close>, \<open>a = 2\<close>, \<open>c = 0\<close> and the state \<open>x = 2 ^ 63\<close> (below \<open>m\<close>) the code stores
  \<open>0\<close> and returns \<open>0\<close>, while \<open>(a * x + c) mod m\<close> is \<open>1\<close>.
\<close>

theorem LinearCongruentialGenerator_getNext_counterexample:
  "LinearCongruentialGenerator_getNext
     (LinearCongruentialGenerator_init 18446744073709551615 2 0 9223372036854775808)
     = Inr (0, LinearCongruentialGenerator_init 18446744073709551615 2 0 0)
   \<and> (2 * 9223372036854775808 + 0) mod 18446744073709551615 = (1 :: nat)"
  by (simp add: LinearCongruentialGenerator_getNext_def LinearCongruentialGenerator_init_def
      to_double_def)

text \<open>
  C6 (as the code has it). For every quadratic generator with a nonzero modulus, \<open>getNext\<close>
  succeeds and stores \<open>((d * x * x + a * x + c) mod 2 ^ 64) mod m\<close>: products and sums are
  64-bit, nothing is widened. The state is the mathematical \<open>(d * x\<^sup>2 + a * x + c) mod m\<close>
  whenever \<open>d * x\<^sup>2 + a * x + c\<close> is below \<open>2 ^ 64\<close>.
\<close>

theorem QuadraticCongruentialGenerator_getNext_step:
  assumes "qcg_m g \<noteq> 0"
  shows "\<exists>x'. QuadraticCongruentialGenerator_getNext g
              = Inr (to_double x' / to_double (qcg_m g), g\<lparr>qcg_x := x'\<rparr>)
         \<and> unat x' = ((unat (qcg_d g) * unat (qcg_x g) * unat (qcg_x g)
                         + unat (qcg_a g) * unat (qcg_x g) + unat (qcg_c g)) mod 2 ^ 64)
                       mod unat (qcg_m g)
         \<and> (unat (qcg_d g) * unat (qcg_x g) * unat (qcg_x g)
              + unat (qcg_a g) * unat (qcg_x g) + unat (qcg_c g) < 2 ^ 64 \<longrightarrow>
            unat x' = (unat (qcg_d g) * unat (qcg_x g) * unat (qcg_x g)
                         + unat (qcg_a g) * unat (qcg_x g) + unat (qcg_c g)) mod unat (qcg_m g))"
proof (intro exI [of _ "(qcg_d g * qcg_x g * qcg_x g + qcg_a g * qcg_x g + qcg_c g) mod qcg_m g"]
    conjI impI)
  show "QuadraticCongruentialGenerator_getNext g =
    Inr (to_double ((qcg_d g * qcg_x g * qcg_x g + qcg_a g * qcg_x g + qcg_c g) mod qcg_m g)
           / to_double (qcg_m g),
         g\<lparr>qcg_x := (qcg_d g * qcg_x g * qcg_x g + qcg_a g * qcg_x g + qcg_c g) mod qcg_m g\<rparr>)"
    using assms by (simp add: QuadraticCongruentialGenerator_getNext_def Let_def)
  show wrap: "unat ((qcg_d g * qcg_x g * qcg_x g + qcg_a g * qcg_x g + qcg_c g) mod qcg_m g) =
    (unat (qcg_d g) * unat (qcg_x g) * unat (qcg_x g) + unat (qcg_a g) * unat (qcg_x g)
       + unat (qcg_c g)) mod 2 ^ 64 mod unat (qcg_m g)"
    by (simp add: unat_mod_u64 unat_word_ariths mod_simps)
  assume "unat (qcg_d g) * unat (qcg_x g) * unat (qcg_x g) + unat (qcg_a g) * unat (qcg_x g)
            + unat (qcg_c g) < 2 ^ 64"
  then show "unat ((qcg_d g * qcg_x g * qcg_x g + qcg_a g * qcg_x g + qcg_c g) mod qcg_m g) =
    (unat (qcg_d g) * unat (qcg_x g) * unat (qcg_x g) + unat (qcg_a g) * unat (qcg_x g)
       + unat (qcg_c g)) mod unat (qcg_m g)"
    by (simp add: wrap)
qed

theorem QuadraticCongruentialGenerator_getNext_step_witness:
  "qcg_m (QuadraticCongruentialGenerator_init 2147483647 40014 0 53668 1000000) \<noteq> 0
   \<and> unat (53668 :: u64) * unat (1000000 :: u64) * unat (1000000 :: u64)
       + unat (40014 :: u64) * unat (1000000 :: u64) + unat (0 :: u64) < 2 ^ 64
   \<and> QuadraticCongruentialGenerator_getNext
       (QuadraticCongruentialGenerator_init 2147483647 40014 0 53668 1000000)
       = Inr (1313916184 / 2147483647,
              QuadraticCongruentialGenerator_init 2147483647 40014 0 53668 1313916184)
   \<and> (53668 * 1000000 * 1000000 + 40014 * 1000000 + 0) mod 2147483647 = (1313916184 :: nat)"
  using QuadraticCongruentialGenerator_getNext_step
          [of "QuadraticCongruentialGenerator_init 2147483647 40014 0 53668 1000000"]
  by (simp add: QuadraticCongruentialGenerator_getNext_def QuadraticCongruentialGenerator_init_def
      to_double_def)

text \<open>
  The claim C6 as it is stated fails on the generator that \<^verbatim>\<open>main\<close> builds
  (\<open>m = 2147483647\<close>, \<open>a = 40014\<close>, \<open>c = 0\<close>, \<open>d = 53668\<close>): from the state \<open>x = 2147483646\<close>
  the code goes to \<open>2147443637\<close>, while \<open>(d * x\<^sup>2 + a * x + c) mod m\<close> is \<open>13654\<close>.
\<close>

theorem QuadraticCongruentialGenerator_getNext_counterexample:
  "QuadraticCongruentialGenerator_getNext
     (QuadraticCongruentialGenerator_init 2147483647 40014 0 53668 2147483646)
     = Inr (2147443637 / 2147483647,
            QuadraticCongruentialGenerator_init 2147483647 40014 0 53668 2147443637)
   \<and> (53668 * 2147483646 * 2147483646 + 40014 * 2147483646 + 0) mod 2147483647 = (13654 :: nat)"
  by (simp add: QuadraticCongruentialGenerator_getNext_def QuadraticCongruentialGenerator_init_def
      to_double_def)

text \<open>
  C9 (as the code has it). The constructor leaves the registers at \<open>(0, 1)\<close> for the seed \<open>0\<close>
  and at \<open>(seed, 1)\<close> for any other seed. With a nonzero modulus, \<open>getNext\<close> succeeds,
  returns \<open>n' / m\<close> and shifts the registers to \<open>(x2, n')\<close>, where \<open>n'\<close> is
  \<open>((x1 + x2) mod 2 ^ 64) mod m\<close>; this is the mathematical \<open>(x1 + x2) mod m\<close> whenever
  \<open>x1 + x2\<close> is below \<open>2 ^ 64\<close>.
\<close>

theorem FibonacciGenerator_seed_and_step:
  "FibonacciGenerator_init m 0 = \<lparr>fib_m = m, fib_x1 = 0, fib_x2 = 1\<rparr>
   \<and> (seed \<noteq> 0 \<longrightarrow> FibonacciGenerator_init m seed = \<lparr>fib_m = m, fib_x1 = seed, fib_x2 = 1\<rparr>)
   \<and> (fib_m g \<noteq> 0 \<longrightarrow>
        (\<exists>n'. FibonacciGenerator_getNext g
                = Inr (to_double n' / to_double (fib_m g), g\<lparr>fib_x1 := fib_x2 g, fib_x2 := n'\<rparr>)
           \<and> unat n' = ((unat (fib_x1 g) + unat (fib_x2 g)) mod 2 ^ 64) mod unat (fib_m g)
           \<and> (unat (fib_x1 g) + unat (fib_x2 g) < 2 ^ 64 \<longrightarrow>
                unat n' = (unat (fib_x1 g) + unat (fib_x2 g)) mod unat (fib_m g))))"
proof (intro conjI impI)
  show "FibonacciGenerator_init m 0 = \<lparr>fib_m = m, fib_x1 = 0, fib_x2 = 1\<rparr>"
    by (simp add: FibonacciGenerator_init_def)
  show "FibonacciGenerator_init m seed = \<lparr>fib_m = m, fib_x1 = seed, fib_x2 = 1\<rparr>" if "seed \<noteq> 0"
    using that by (simp add: FibonacciGenerator_init_def)
  show "\<exists>n'. FibonacciGenerator_getNext g
                = Inr (to_double n' / to_double (fib_m g), g\<lparr>fib_x1 := fib_x2 g, fib_x2 := n'\<rparr>)
           \<and> unat n' = ((unat (fib_x1 g) + unat (fib_x2 g)) mod 2 ^ 64) mod unat (fib_m g)
           \<and> (unat (fib_x1 g) + unat (fib_x2 g) < 2 ^ 64 \<longrightarrow>
                unat n' = (unat (fib_x1 g) + unat (fib_x2 g)) mod unat (fib_m g))"
    if nz: "fib_m g \<noteq> 0"
  proof (intro exI [of _ "(fib_x1 g + fib_x2 g) mod fib_m g"] conjI impI)
    show "FibonacciGenerator_getNext g =
      Inr (to_double ((fib_x1 g + fib_x2 g) mod fib_m g) / to_double (fib_m g),
           g\<lparr>fib_x1 := fib_x2 g, fib_x2 := (fib_x1 g + fib_x2 g) mod fib_m g\<rparr>)"
      using nz by (simp add: FibonacciGenerator_getNext_def Let_def)
    show wrap: "unat ((fib_x1 g + fib_x2 g) mod fib_m g) =
      (unat (fib_x1 g) + unat (fib_x2 g)) mod 2 ^ 64 mod unat (fib_m g)"
      by (simp add: unat_mod_u64 unat_word_ariths)
    assume "unat (fib_x1 g) + unat (fib_x2 g) < 2 ^ 64"
    then show "unat ((fib_x1 g + fib_x2 g) mod fib_m g) =
      (unat (fib_x1 g) + unat (fib_x2 g)) mod unat (fib_m g)"
      by (simp add: wrap)
  qed
qed

theorem FibonacciGenerator_seed_and_step_witness:
  "(5 :: u64) \<noteq> 0
   \<and> FibonacciGenerator_init 2147483647 5 = \<lparr>fib_m = 2147483647, fib_x1 = 5, fib_x2 = 1\<rparr>
   \<and> fib_m (FibonacciGenerator_init 2147483647 5) \<noteq> 0
   \<and> unat (5 :: u64) + unat (1 :: u64) < 2 ^ 64
   \<and> FibonacciGenerator_getNext (FibonacciGenerator_init 2147483647 5)
       = Inr (6 / 2147483647, \<lparr>fib_m = 2147483647, fib_x1 = 1, fib_x2 = 6\<rparr>)"
  using FibonacciGenerator_seed_and_step
          [of 2147483647 5 "FibonacciGenerator_init 2147483647 5"]
  by (simp add: FibonacciGenerator_getNext_def FibonacciGenerator_init_def to_double_def)

text \<open>
  The claim C9 as it is stated fails where \<open>x1 + x2\<close> reaches \<open>2 ^ 64\<close>: seeded with
  \<open>2 ^ 64 - 1\<close> and the modulus \<open>2147483647\<close>, the registers start at \<open>(2 ^ 64 - 1, 1)\<close>, the
  first call returns \<open>0\<close> and stores \<open>0\<close>, while \<open>(x1 + x2) mod m\<close> is \<open>4\<close>.
\<close>

theorem FibonacciGenerator_getNext_counterexample:
  "FibonacciGenerator_getNext (FibonacciGenerator_init 2147483647 18446744073709551615)
     = Inr (0, \<lparr>fib_m = 2147483647, fib_x1 = 1, fib_x2 = 0\<rparr>)
   \<and> (18446744073709551615 + 1) mod 2147483647 = (4 :: nat)"
  by (simp add: FibonacciGenerator_getNext_def FibonacciGenerator_init_def to_double_def)

text \<open>
  While the modulus is at most \<open>2 ^ 63\<close>, the second register is at most \<open>2 ^ 63\<close> and the
  two registers add up to less than \<open>2 ^ 64\<close>, this stays so after a call: no sum wraps.
\<close>

lemma Fibonacci_generate_invariant:
  assumes "fib_m g \<noteq> 0" and "unat (fib_m g) \<le> 2 ^ 63"
    and "unat (fib_x1 g) + unat (fib_x2 g) < 2 ^ 64" and "unat (fib_x2 g) \<le> 2 ^ 63"
  shows "\<exists>g'. generate FibonacciGenerator_getNext n g
             = Inr (map (\<lambda>k. real k / real (unat (fib_m g)))
                      (lagged_sequence (unat (fib_m g)) (unat (fib_x1 g)) (unat (fib_x2 g)) n), g')"
  using assms
proof (induction n arbitrary: g)
  case 0
  then show ?case by simp
next
  case (Suc n)
  define nv where "nv = (fib_x1 g + fib_x2 g) mod fib_m g"
  define g1 where "g1 = g\<lparr>fib_x1 := fib_x2 g, fib_x2 := nv\<rparr>"
  have step: "FibonacciGenerator_getNext g = Inr (to_double nv / to_double (fib_m g), g1)"
    using Suc.prems(1) by (simp add: FibonacciGenerator_getNext_def Let_def nv_def g1_def)
  have nv: "unat nv = (unat (fib_x1 g) + unat (fib_x2 g)) mod unat (fib_m g)"
    using Suc.prems(3) by (simp add: nv_def unat_mod_u64 unat_word_ariths)
  have "0 < unat (fib_m g)" using Suc.prems(1) by (simp add: unat_gt_0)
  then have "unat nv < unat (fib_m g)" by (simp add: nv)
  with Suc.prems(2) have small: "unat nv < 2 ^ 63" by simp
  have "unat (fib_x2 g) + unat nv < 2 ^ 64"
    using small Suc.prems(4) by simp
  with Suc.IH [of g1] Suc.prems(1,2) small
  obtain g' where "generate FibonacciGenerator_getNext n g1
      = Inr (map (\<lambda>k. real k / real (unat (fib_m g)))
               (lagged_sequence (unat (fib_m g)) (unat (fib_x2 g)) (unat nv) n), g')"
    by (auto simp: g1_def)
  with step nv show ?case by (simp add: to_double_def)
qed

text \<open>
  X1. With a modulus of at most \<open>2 ^ 63\<close> and a seed below \<open>2 ^ 64 - 1\<close> the \<open>n\<close> values drawn
  from a new additive generator are the first \<open>n\<close> terms of the sequence over the natural
  numbers that starts from \<open>(seed, 1)\<close>, each divided by \<open>m\<close>. For the seed \<open>0\<close> this is the
  sequence from \<open>(0, 1)\<close>.
\<close>

theorem FibonacciGenerator_sequence:
  assumes "m \<noteq> 0" and "unat m \<le> 2 ^ 63" and "unat seed < 2 ^ 64 - 1"
  shows "\<exists>g'. generate FibonacciGenerator_getNext n (FibonacciGenerator_init m seed)
             = Inr (map (\<lambda>k. real k / real (unat m)) (lagged_sequence (unat m) (unat seed) 1 n), g')"
proof -
  have init: "FibonacciGenerator_init m seed = \<lparr>fib_m = m, fib_x1 = seed, fib_x2 = 1\<rparr>"
    by (cases "seed = 0") (simp_all add: FibonacciGenerator_init_def Let_def)
  from assms(3) have "unat seed + 1 < 2 ^ 64" by simp
  with Fibonacci_generate_invariant [of "FibonacciGenerator_init m seed" n] assms(1,2)
  show ?thesis by (simp add: init)
qed

theorem FibonacciGenerator_sequence_witness:
  "(2147483647 :: u64) \<noteq> 0 \<and> unat (2147483647 :: u64) \<le> 2 ^ 63 \<and> unat (0 :: u64) < 2 ^ 64 - 1
   \<and> lagged_sequence 2147483647 0 1 (Suc (Suc (Suc 0))) = [1, 2, 3]
   \<and> (\<exists>g'. generate FibonacciGenerator_getNext (Suc (Suc (Suc 0)))
                (FibonacciGenerator_init 2147483647 0)
            = Inr ([1 / 2147483647, 2 / 2147483647, 3 / 2147483647], g'))"
  using FibonacciGenerator_sequence [of 2147483647 0 "Suc (Suc (Suc 0))"]
  by simp

section \<open>Inverse congruential generator\<close>

text \<open>
  Euclid's loop keeps the greatest common divisor of \<open>a\<close> and \<open>m\<close>. When it exceeds \<open>1\<close>, the
  loop reaches \<open>m = 0\<close> with \<open>a\<close> still above \<open>1\<close> and divides by zero.
\<close>

lemma modInverse_loop_common_factor:
  "1 < a \<Longrightarrow> \<not> coprime (unat a) (unat m) \<Longrightarrow> modInverse_loop a m x0 x1 = Inl DivisionByZero"
proof (induction a m x0 x1 rule: modInverse_loop.induct)
  case (1 a m x0 x1)
  show ?case
  proof (cases "m = 0")
    case True
    with 1(2) show ?thesis by (subst modInverse_loop.simps) simp
  next
    case False
    have "unat m \<noteq> 1" using 1(3) by auto
    moreover have "unat m \<noteq> 0" using False by (simp add: unat_eq_0)
    ultimately have "1 < unat m" by arith
    then have m1: "1 < m" by (simp add: word_less_nat_alt)
    have "gcd (unat m) (unat a mod unat m) = gcd (unat a) (unat m)"
      by (metis gcd_red_nat)
    then have "\<not> coprime (unat m) (unat (a mod m))"
      using 1(3) by (simp add: unat_mod_u64 coprime_iff_gcd_eq_1)
    with 1 False m1 show ?thesis by (subst modInverse_loop.simps) simp
  qed
qed

text \<open>
  X2. When the state of the inverse generator is above \<open>1\<close> and shares a factor with the
  modulus, \<open>getNext\<close> returns no value: \<open>modInverse\<close> divides by zero.
\<close>

theorem InverseCongruentialGenerator_getNext_common_factor:
  assumes "1 < icg_x g" and "\<not> coprime (unat (icg_x g)) (unat (icg_p g))"
  shows "InverseCongruentialGenerator_getNext g = Inl DivisionByZero"
  using assms
  by (simp add: InverseCongruentialGenerator_getNext_def modInverse_def
      modInverse_loop_common_factor)

theorem InverseCongruentialGenerator_getNext_common_factor_witness:
  "1 < icg_x (InverseCongruentialGenerator_init 4 1 0 2)
   \<and> \<not> coprime (unat (icg_x (InverseCongruentialGenerator_init 4 1 0 2)))
                  (unat (icg_p (InverseCongruentialGenerator_init 4 1 0 2)))
   \<and> InverseCongruentialGenerator_getNext (InverseCongruentialGenerator_init 4 1 0 2)
       = Inl DivisionByZero"
proof -
  have "\<not> coprime (2 :: nat) 4"
  proof
    assume "coprime (2 :: nat) 4"
    then have "(2 :: nat) = 1" by (rule coprime_common_divisor_nat) simp_all
    then show False by simp
  qed
  then show ?thesis
    using InverseCongruentialGenerator_getNext_common_factor
            [of "InverseCongruentialGenerator_init 4 1 0 2"]
    by (simp add: InverseCongruentialGenerator_init_def)
qed

text \<open>
  C2 (as the code has it). When the state of the inverse generator is \<open>0\<close> (and the modulus
  is not), \<open>getNext\<close> reports no error: the loop of \<open>modInverse\<close> is not entered, \<open>modInverse\<close>
  returns \<open>1\<close>, and \<open>getNext\<close> stores \<open>(a + c) mod p\<close> and returns it divided by \<open>p\<close>.
\<close>

theorem InverseCongruentialGenerator_getNext_zero_state:
  assumes "icg_x g = 0" and "icg_p g \<noteq> 0"
  shows "modInverse (icg_x g) (icg_p g) = Inr 1
       \<and> InverseCongruentialGenerator_getNext g
           = Inr (to_double ((icg_a g + icg_c g) mod icg_p g) / to_double (icg_p g),
                  g\<lparr>icg_x := (icg_a g + icg_c g) mod icg_p g\<rparr>)"
  using assms
  by (simp add: InverseCongruentialGenerator_getNext_def modInverse_def Let_def
      modInverse_loop.simps [of 0])

theorem InverseCongruentialGenerator_getNext_zero_state_witness:
  "icg_x (InverseCongruentialGenerator_init 7 3 1 0) = 0
   \<and> icg_p (InverseCongruentialGenerator_init 7 3 1 0) \<noteq> 0
   \<and> InverseCongruentialGenerator_getNext (InverseCongruentialGenerator_init 7 3 1 0)
       = Inr (4 / 7, InverseCongruentialGenerator_init 7 3 1 4)"
  using InverseCongruentialGenerator_getNext_zero_state
          [of "InverseCongruentialGenerator_init 7 3 1 0"]
  by (simp add: InverseCongruentialGenerator_init_def to_double_def)

text \<open>
  The claim C2 as it is stated fails at the state \<open>0\<close>, which is not coprime with the
  modulus: the generator of \<^verbatim>\<open>main\<close> (\<open>p = 2147483647\<close>, \<open>a = 16805\<close>, \<open>c = 10\<close>) in the state
  \<open>0\<close> returns the number \<open>16815 / 2147483647\<close>, not an error.
\<close>

theorem InverseCongruentialGenerator_getNext_counterexample:
  "\<not> coprime (unat (0 :: u64)) (unat (2147483647 :: u64))
   \<and> InverseCongruentialGenerator_getNext (InverseCongruentialGenerator_init 2147483647 16805 10 0)
       = Inr (16815 / 2147483647, InverseCongruentialGenerator_init 2147483647 16805 10 16815)"
  by (simp add: InverseCongruentialGenerator_getNext_def InverseCongruentialGenerator_init_def
      modInverse_def to_double_def modInverse_loop.simps)

text \<open>
  Euclid's loop on the integers, followed through the wrapping variables. With \<open>A\<close> and \<open>M\<close>
  the values \<open>modInverse\<close> was called with, the words \<open>x0\<close>, \<open>x1\<close> are the integers \<open>X0\<close>, \<open>X1\<close>
  modulo \<open>2 ^ 64\<close>, where \<open>X1 * A\<close> is congruent to \<open>a\<close> and \<open>X0 * A\<close> to \<open>m\<close> modulo \<open>M\<close>, the
  two have opposite signs and \<open>\<bar>X1\<bar> * m + \<bar>X0\<bar> * a = M\<close>.
\<close>

lemma euclid_step_identity:
  "(x :: int) * (a - q * m) + (y + q * x) * m = y * m + x * a"
  by (simp add: algebra_simps)

lemma modInverse_loop_invariant:
  fixes A M :: int
  assumes M: "1 < M"
  shows "x0 = word_of_int X0 \<Longrightarrow> x1 = word_of_int X1 \<Longrightarrow>
     (X1 * A) mod M = uint a mod M \<Longrightarrow> (X0 * A) mod M = uint m mod M \<Longrightarrow>
     \<bar>X1\<bar> * uint m + \<bar>X0\<bar> * uint a = M \<Longrightarrow> \<bar>X1\<bar> < M \<Longrightarrow>
     (X0 \<le> 0 \<and> 0 \<le> X1) \<or> (0 \<le> X0 \<and> X1 \<le> 0) \<Longrightarrow>
     coprime (unat a) (unat m) \<Longrightarrow> 0 < a \<Longrightarrow>
     \<exists>X. modInverse_loop a m x0 x1 = Inr (word_of_int X) \<and> \<bar>X\<bar> < M \<and> (X * A) mod M = 1"
proof (induction a m x0 x1 arbitrary: X0 X1 rule: modInverse_loop.induct)
  case (1 a m x0 x1)
  show ?case
  proof (cases "1 < a")
    case False
    with \<open>0 < a\<close> have a1: "a = 1"
      by (metis word_less_1 not_less_iff_gr_or_eq word_gt_0 linorder_neqE_linordered_idom unat_1 unat_gt_0 word_less_nat_alt nat_neq_iff less_one)
    then have "modInverse_loop a m x0 x1 = Inr (word_of_int X1)"
      using 1(3) by (subst modInverse_loop.simps) simp
    moreover have "(X1 * A) mod M = 1" using 1(4) a1 M by simp
    ultimately show ?thesis using 1(7) by blast
  next
    case True
    have m0: "m \<noteq> 0"
    proof
      assume "m = 0"
      with 1(9) have "unat a = 1" by simp
      with True show False by (simp add: word_less_nat_alt)
    qed
    define q where "q = uint a div uint m"
    have um: "0 < uint m" using m0 by (simp add: word_neq_0_conv word_less_def)
    have ua: "2 \<le> uint a" using True by (simp add: word_less_def)
    have "uint a mod uint m = uint a - q * uint m"
      unfolding q_def by (simp add: minus_div_mult_eq_mod)
    then have amod: "uint (a mod m) = uint a - q * uint m"
      by (simp only: uint_mod)
    have adiv: "a div m = word_of_int q"
      by (simp add: q_def uint_div [symmetric])
    have p1: "x1 - (a div m) * x0 = word_of_int (X1 - q * X0)"
      by (simp add: adiv 1(2,3) wi_hom_syms)
    have p3: "(X0 * A) mod M = uint m mod M" by (rule 1(5))
    have p4: "((X1 - q * X0) * A) mod M = uint (a mod m) mod M"
    proof -
      have "((X1 - q * X0) * A) mod M = (X1 * A - q * (X0 * A)) mod M"
        by (simp add: algebra_simps)
      also have "\<dots> = (uint a - q * uint m) mod M"
        using 1(4) 1(5) by (metis mod_diff_cong mod_mult_right_eq)
      finally show ?thesis by (simp add: amod)
    qed
    have abs: "\<bar>X1 - q * X0\<bar> = \<bar>X1\<bar> + q * \<bar>X0\<bar>"
    proof -
      have q0: "0 \<le> q" using um by (simp add: q_def pos_imp_zdiv_nonneg_iff)
      from 1(8) show ?thesis
      proof
        assume s: "X0 \<le> 0 \<and> 0 \<le> X1"
        then have "q * X0 \<le> 0" using q0 by (simp add: mult_nonneg_nonpos)
        with s have "0 \<le> X1 - q * X0" by simp
        then have "\<bar>X1 - q * X0\<bar> = X1 - q * X0" by (rule abs_of_nonneg)
        moreover have "\<bar>X1\<bar> = X1" "\<bar>X0\<bar> = - X0" using s by simp_all
        ultimately show ?thesis by simp
      next
        assume s: "0 \<le> X0 \<and> X1 \<le> 0"
        then have "0 \<le> q * X0" using q0 by simp
        with s have "X1 - q * X0 \<le> 0" by simp
        then have "\<bar>X1 - q * X0\<bar> = - (X1 - q * X0)" by (rule abs_of_nonpos)
        moreover have "\<bar>X1\<bar> = - X1" "\<bar>X0\<bar> = X0" using s by simp_all
        ultimately show ?thesis by simp
      qed
    qed
    have "\<bar>X0\<bar> * (uint a - q * uint m) + (\<bar>X1\<bar> + q * \<bar>X0\<bar>) * uint m
            = \<bar>X1\<bar> * uint m + \<bar>X0\<bar> * uint a"
      by (rule euclid_step_identity)
    then have p5: "\<bar>X0\<bar> * uint (a mod m) + \<bar>X1 - q * X0\<bar> * uint m = M"
      by (simp only: amod abs 1(6))
    have p6: "\<bar>X0\<bar> < M"
    proof -
      have "0 \<le> \<bar>X1\<bar> * uint m" using um by simp
      then have "\<bar>X0\<bar> * uint a \<le> M" using 1(6) by linarith
      moreover have "\<bar>X0\<bar> * 2 \<le> \<bar>X0\<bar> * uint a" using ua by (intro mult_left_mono) simp_all
      ultimately show ?thesis using M by linarith
    qed
    have p7: "(X1 - q * X0 \<le> 0 \<and> 0 \<le> X0) \<or> (0 \<le> X1 - q * X0 \<and> X0 \<le> 0)"
    proof -
      have q0: "0 \<le> q" using um by (simp add: q_def pos_imp_zdiv_nonneg_iff)
      from 1(8) show ?thesis
      proof
        assume s: "X0 \<le> 0 \<and> 0 \<le> X1"
        then have "q * X0 \<le> 0" using q0 by (simp add: mult_nonneg_nonpos)
        with s show ?thesis by simp
      next
        assume s: "0 \<le> X0 \<and> X1 \<le> 0"
        then have "0 \<le> q * X0" using q0 by simp
        with s show ?thesis by simp
      qed
    qed
    have "gcd (unat m) (unat a mod unat m) = gcd (unat a) (unat m)"
      by (metis gcd_red_nat)
    then have p8: "coprime (unat m) (unat (a mod m))"
      using 1(9) by (simp add: unat_mod_u64 coprime_iff_gcd_eq_1)
    have p9: "0 < m" using m0 by (simp add: word_neq_0_conv)
    from 1(1) [OF True m0 p1 1(2) p3 p4 p5 p6 p7 p8 p9]
    obtain X where "modInverse_loop m (a mod m) (x1 - a div m * x0) x0 = Inr (word_of_int X)"
      "\<bar>X\<bar> < M" "(X * A) mod M = 1"
      by blast
    then show ?thesis using True m0 by (subst modInverse_loop.simps) auto
  qed
qed

text \<open>
  X6. For \<open>a > 1\<close> coprime with \<open>m > 1\<close>, \<open>modInverse\<close> ends without a division by zero and
  returns the coefficient \<open>X\<close> of Euclid's algorithm, which has \<open>- m < X < m\<close> and
  \<open>X * a mod m = 1\<close>, reduced modulo \<open>2 ^ 64\<close> and not modulo \<open>m\<close>: the inverse itself when
  \<open>X\<close> is positive, \<open>2 ^ 64 + X\<close> when \<open>X\<close> is negative.
\<close>

theorem modInverse_wrapped_coefficient:
  assumes "1 < a" and "1 < m" and "coprime (unat a) (unat m)"
  shows "\<exists>X. modInverse a m = Inr (word_of_int X)
            \<and> \<bar>X\<bar> < uint m \<and> (X * uint a) mod uint m = 1"
proof -
  have M: "1 < uint m" using assms(2) by (simp add: word_less_def)
  have "\<exists>X. modInverse_loop a m 0 1 = Inr (word_of_int X)
            \<and> \<bar>X\<bar> < uint m \<and> (X * uint a) mod uint m = 1"
  proof (rule modInverse_loop_invariant [OF M, where ?X0.0 = 0 and ?X1.0 = 1])
    show "(0 :: u64) = word_of_int 0" by simp
    show "(1 :: u64) = word_of_int 1" by simp
    show "1 * uint a mod uint m = uint a mod uint m" by simp
    show "0 * uint a mod uint m = uint m mod uint m" by simp
    show "\<bar>1\<bar> * uint m + \<bar>0\<bar> * uint a = uint m" by simp
    show "\<bar>1\<bar> < uint m" using M by simp
    show "(0 :: int) \<le> 0 \<and> (0 :: int) \<le> 1 \<or> (0 :: int) \<le> 0 \<and> (1 :: int) \<le> 0" by simp
    show "coprime (unat a) (unat m)" by (rule assms(3))
    show "0 < a" using assms(1) by (simp add: word_less_nat_alt)
  qed
  then show ?thesis by (auto simp: modInverse_def)
qed

theorem modInverse_wrapped_coefficient_witness:
  "(1 :: u64) < 16815 \<and> (1 :: u64) < 2147483647
   \<and> coprime (unat (16815 :: u64)) (unat (2147483647 :: u64))
   \<and> modInverse 16815 2147483647 = Inr (word_of_int (- 940346244))
   \<and> \<bar>- 940346244 :: int\<bar> < uint (2147483647 :: u64)
   \<and> (- 940346244 * uint (16815 :: u64)) mod uint (2147483647 :: u64) = 1"
proof -
  have c: "coprime (unat (16815 :: u64)) (unat (2147483647 :: u64))"
    by (simp add: coprime_iff_gcd_eq_1 gcd_non_0_nat)
  show ?thesis
    using c modInverse_wrapped_coefficient [of 16815 2147483647]
    by (simp add: modInverse_def modInverse_loop.simps)
qed

text \<open>
  C3 (where the code departs from it). The generator of \<^verbatim>\<open>main\<close> is seeded with \<open>1\<close>; its
  first call leaves the state \<open>16815\<close>, which is coprime with the prime \<open>p = 2147483647\<close>. On
  the second call \<open>modInverse 16815 p\<close> returns \<open>18446744072769205372\<close>, that is
  \<open>2 ^ 64 - 940346244\<close>: the coefficient \<open>- 940346244\<close> of Euclid's algorithm, wrapped. The
  test \<open>x1 < 0\<close> on the unsigned value does not hold, so the modulus is not added. The
  result is not below \<open>p\<close>, and its product with \<open>16815\<close> is \<open>67261\<close> modulo \<open>p\<close>, not \<open>1\<close>;
  with the modulus added it would have been the inverse. The state after the second call
  is computed from the wrapped value.
\<close>

theorem modInverse_unsigned_coefficient:
  "InverseCongruentialGenerator_getNext (InverseCongruentialGenerator_init 2147483647 16805 10 1)
     = Inr (16815 / 2147483647, InverseCongruentialGenerator_init 2147483647 16805 10 16815)
   \<and> coprime (unat (16815 :: u64)) (unat (2147483647 :: u64))
   \<and> modInverse 16815 2147483647 = Inr 18446744072769205372
   \<and> \<not> (18446744072769205372 :: u64) < 2147483647
   \<and> (16815 * unat (18446744072769205372 :: u64)) mod 2147483647 = 67261
   \<and> (16815 * unat (18446744072769205372 + 2147483647 :: u64)) mod 2147483647 = 1
   \<and> InverseCongruentialGenerator_getNext (InverseCongruentialGenerator_init 2147483647 16805 10 16815)
       = Inr (813527867 / 2147483647, InverseCongruentialGenerator_init 2147483647 16805 10 813527867)"
  by (simp add: InverseCongruentialGenerator_getNext_def InverseCongruentialGenerator_init_def
      modInverse_def to_double_def modInverse_loop.simps coprime_iff_gcd_eq_1 gcd_non_0_nat)

section \<open>Polar generator\<close>

text \<open>
  X3. When \<open>last\<close> is positive, \<open>getNext\<close> returns it, puts \<open>- 1\<close> back and takes nothing
  from \<^verbatim>\<open>rand\<close>.
\<close>

theorem PolarCoordinateGenerator_getNext_cached:
  assumes "fp_positive (polar_last g)"
  shows "PolarCoordinateGenerator_getNext g rands
           = Some (polar_last g, g\<lparr>polar_last := Finite (- 1)\<rparr>, rands)"
  using assms by (simp add: PolarCoordinateGenerator_getNext_def)

theorem PolarCoordinateGenerator_getNext_cached_witness:
  "fp_positive (polar_last \<lparr>polar_last = Finite (1 / 2)\<rparr>)
   \<and> PolarCoordinateGenerator_getNext \<lparr>polar_last = Finite (1 / 2)\<rparr> [3, 4]
       = Some (Finite (1 / 2), \<lparr>polar_last = Finite (- 1)\<rparr>, [3, 4])"
  using PolarCoordinateGenerator_getNext_cached [of "\<lparr>polar_last = Finite (1 / 2)\<rparr>" "[3, 4]"]
  by simp

text \<open>
  A pair the loop accepts has \<open>s = v1\<^sup>2 + v2\<^sup>2\<close> in \<open>[0, 1)\<close>, and the loop has taken an even,
  positive number of values from \<^verbatim>\<open>rand\<close>.
\<close>

lemma polar_loop_accepted:
  "polar_loop rands = Some (v1, v2, s, rest) \<Longrightarrow>
     s = v1 * v1 + v2 * v2 \<and> 0 \<le> s \<and> s < 1
     \<and> (\<exists>k. length rands = length rest + 2 * Suc k)"
proof (induction rands rule: polar_loop.induct)
  case (1 r1 r2 rest')
  show ?case
  proof (cases "1 \<le> polar_uniform r1 * polar_uniform r1 + polar_uniform r2 * polar_uniform r2")
    case True
    with 1(2) have rec: "polar_loop rest' = Some (v1, v2, s, rest)"
      by (simp add: Let_def)
    from 1(1) [OF refl refl refl True rec]
    obtain k where "length rest' = length rest + 2 * Suc k"
      and "s = v1 * v1 + v2 * v2 \<and> 0 \<le> s \<and> s < 1"
      by blast
    then show ?thesis by (auto intro: exI [of _ "Suc k"])
  next
    case False
    with 1(2) show ?thesis by (auto simp: Let_def intro: exI [of _ 0])
  qed
qed simp_all

lemma polar_scale_positive:
  assumes "0 < v" and "0 < s" and "s < 1"
  shows "\<exists>r. polar_scale v s = Finite r \<and> 0 < r"
proof -
  have "ln s < 0" using assms by simp
  then have "0 < (- 2 * ln s) / s" using assms by (simp add: field_simps)
  then have "0 < sqrt ((- 2 * ln s) / s)" by simp
  with assms show ?thesis by (simp add: polar_scale_def)
qed

text \<open>
  X4. When nothing is pending and the second value \<open>v2\<close> of the pair that the loop accepts
  is positive, two calls return the two values of the pair, the second call takes nothing
  from \<^verbatim>\<open>rand\<close>, and \<open>last\<close> is \<open>- 1\<close> again.
\<close>

theorem polar_pair_two_calls:
  assumes "\<not> fp_positive (polar_last g)"
    and "polar_loop rands = Some (v1, v2, s, rest)"
    and "0 < v2"
  shows "polar_two_calls g rands
           = Some (polar_scale v1 s, polar_scale v2 s, g\<lparr>polar_last := Finite (- 1)\<rparr>, rest)"
proof -
  from polar_loop_accepted [OF assms(2)] have s: "s = v1 * v1 + v2 * v2" "s < 1" by simp_all
  have "0 < v2 * v2" using assms(3) by simp
  moreover have "0 \<le> v1 * v1" by simp
  ultimately have "0 < s" unfolding s by linarith
  from polar_scale_positive [OF assms(3) this s(2)]
  obtain r where r: "polar_scale v2 s = Finite r" "0 < r" by blast
  show ?thesis
    using assms(1,2) r
    by (simp add: polar_two_calls_def PolarCoordinateGenerator_getNext_def)
qed

theorem polar_pair_two_calls_witness:
  "\<not> fp_positive (polar_last PolarCoordinateGenerator_init)
   \<and> polar_loop [1, 1, 7] = Some (2 / 2147483647, 2 / 2147483647, 8 / 4611686014132420609, [7])
   \<and> (0 :: real) < 2 / 2147483647
   \<and> polar_two_calls PolarCoordinateGenerator_init [1, 1, 7]
       = Some (polar_scale (2 / 2147483647) (8 / 4611686014132420609),
               polar_scale (2 / 2147483647) (8 / 4611686014132420609),
               \<lparr>polar_last = Finite (- 1)\<rparr>, [7])"
proof -
  have l: "polar_loop [1, 1, 7]
             = Some (2 / 2147483647, 2 / 2147483647, 8 / 4611686014132420609, [7])"
    by (simp add: polar_uniform_def Let_def)
  have n: "\<not> fp_positive (polar_last PolarCoordinateGenerator_init)"
    by (simp add: PolarCoordinateGenerator_init_def)
  show ?thesis
    using l n polar_pair_two_calls [OF n l]
    by (simp add: PolarCoordinateGenerator_init_def)
qed

text \<open>
  C4 (where the code departs from it). \<^verbatim>\<open>rand\<close> returns \<open>1, 0, 1, 1\<close>. The first call on a new
  generator accepts the pair \<open>v1 = 2 / 2147483647\<close>, \<open>v2 = 0\<close>, returns the first value and
  stores the second one, \<open>0\<close>, in \<open>last\<close>. The test \<open>last > 0\<close> of the second call fails on
  the stored \<open>0\<close>: the call does not return it, it takes two more values from \<^verbatim>\<open>rand\<close> and
  returns the first value of a new pair. Two outputs have used four values of \<^verbatim>\<open>rand\<close>.
\<close>

theorem PolarCoordinateGenerator_zero_cache_dropped:
  "PolarCoordinateGenerator_getNext PolarCoordinateGenerator_init [1, 0, 1, 1]
     = Some (polar_scale (2 / 2147483647) (4 / 4611686014132420609),
             \<lparr>polar_last = Finite 0\<rparr>, [1, 1])
   \<and> PolarCoordinateGenerator_getNext \<lparr>polar_last = Finite 0\<rparr> [1, 1]
     = Some (polar_scale (2 / 2147483647) (8 / 4611686014132420609),
             \<lparr>polar_last = polar_scale (2 / 2147483647) (8 / 4611686014132420609)\<rparr>, [])"
  by (simp add: PolarCoordinateGenerator_getNext_def PolarCoordinateGenerator_init_def
      polar_scale_def polar_uniform_def Let_def)

text \<open>
  C5 (where the code departs from it). The loop repeats only while \<open>s \<ge> 1\<close>. When \<^verbatim>\<open>rand\<close>
  returns \<open>0\<close> twice, \<open>v1 = v2 = 0\<close> and \<open>s = 0\<close> is accepted; the value returned and the
  value stored are \<open>0 * \<infinity>\<close>, NaN. The values \<open>v1\<close>, \<open>v2\<close> are \<open>2 * rand() / 2147483647\<close>,
  between \<open>0\<close> and \<open>2\<close>: with \<^verbatim>\<open>rand\<close> returning \<open>2147483647, 0, 1, 0\<close> the first pair is
  \<open>(2, 0)\<close> and is rejected, the second is accepted.
\<close>

theorem polar_loop_accepts_zero:
  "polar_loop [0, 0] = Some (0, 0, 0, [])
   \<and> PolarCoordinateGenerator_getNext PolarCoordinateGenerator_init [0, 0]
       = Some (NaN, \<lparr>polar_last = NaN\<rparr>, [])
   \<and> polar_loop [2147483647, 0, 1, 0] = Some (2 / 2147483647, 0, 4 / 4611686014132420609, [])"
  by (simp add: PolarCoordinateGenerator_getNext_def PolarCoordinateGenerator_init_def
      polar_scale_def polar_uniform_def Let_def)

section \<open>Binary64 rounding\<close>

text \<open>Rounding never crosses an integer: the unit in the last place divides \<open>1\<close>.\<close>

lemma round_even_le: "r \<le> of_int N \<Longrightarrow> round_even r \<le> N"
  unfolding round_even_def Let_def by (auto simp: floor_le_iff)

lemma round_even_ge: "of_int N \<le> r \<Longrightarrow> N \<le> round_even r"
proof -
  assume "of_int N \<le> r"
  then have "N \<le> \<lfloor>r\<rfloor>" by (simp add: le_floor_iff)
  then show ?thesis unfolding round_even_def Let_def by auto
qed

lemma ulp_inverse_integer:
  assumes "r \<noteq> 0" and "\<bar>r\<bar> < 2 ^ 53"
  defines "e \<equiv> max (\<lfloor>log 2 \<bar>r\<bar>\<rfloor> - 52) (- 1074)"
  shows "0 < (2::real) powr of_int e \<and> (2::real) powr of_int e * of_int (2 ^ nat (- e)) = 1"
proof -
  have "log 2 \<bar>r\<bar> < 53"
    using assms(1,2) by (simp add: log_less_iff powr_realpow [symmetric])
  then have "\<lfloor>log 2 \<bar>r\<bar>\<rfloor> < 53" by (simp add: floor_less_iff)
  then have e0: "e \<le> 0" by (simp add: e_def)
  then have "(2::real) powr of_int e = 1 / 2 ^ nat (- e)"
    by (simp add: powr_int)
  then show ?thesis by simp
qed

lemma round_double_le:
  assumes "\<bar>r\<bar> < 2 ^ 53" and "r \<le> of_int c"
  shows "round_double r \<le> of_int c"
proof (cases "r = 0")
  case True
  with assms show ?thesis by (simp add: round_double_def)
next
  case False
  define e where "e = max (\<lfloor>log 2 \<bar>r\<bar>\<rfloor> - 52) (- 1074)"
  define u :: real where "u = 2 powr of_int e"
  from ulp_inverse_integer [OF False assms(1)]
  have u: "0 < u" "u * of_int (2 ^ nat (- e)) = 1" by (simp_all add: u_def e_def)
  have "r / u = r * of_int (2 ^ nat (- e))"
    using u by (simp add: field_simps)
  also have "\<dots> \<le> of_int c * of_int (2 ^ nat (- e))"
    using assms(2) by (intro mult_right_mono) simp_all
  finally have "r / u \<le> of_int (c * 2 ^ nat (- e))" by simp
  then have "round_even (r / u) \<le> c * 2 ^ nat (- e)" by (rule round_even_le)
  then have "real_of_int (round_even (r / u)) \<le> of_int (c * 2 ^ nat (- e))"
    by (simp only: of_int_le_iff)
  then have "real_of_int (round_even (r / u)) * u \<le> of_int (c * 2 ^ nat (- e)) * u"
    using u(1) by (intro mult_right_mono) simp_all
  also have "\<dots> = of_int c * (u * of_int (2 ^ nat (- e)))" by (simp add: mult_ac)
  also have "\<dots> = of_int c" by (simp only: u(2) mult_1_right)
  finally have "real_of_int (round_even (r / u)) * u \<le> of_int c" .
  moreover have "round_double r = real_of_int (round_even (r / u)) * u"
    using False by (simp add: round_double_def Let_def u_def e_def)
  ultimately show ?thesis by simp
qed

lemma round_double_ge:
  assumes "\<bar>r\<bar> < 2 ^ 53" and "of_int c \<le> r"
  shows "of_int c \<le> round_double r"
proof (cases "r = 0")
  case True
  with assms show ?thesis by (simp add: round_double_def)
next
  case False
  define e where "e = max (\<lfloor>log 2 \<bar>r\<bar>\<rfloor> - 52) (- 1074)"
  define u :: real where "u = 2 powr of_int e"
  from ulp_inverse_integer [OF False assms(1)]
  have u: "0 < u" "u * of_int (2 ^ nat (- e)) = 1" by (simp_all add: u_def e_def)
  have "of_int c * of_int (2 ^ nat (- e)) \<le> r * of_int (2 ^ nat (- e))"
    using assms(2) by (intro mult_right_mono) simp_all
  also have "\<dots> = r / u"
    using u by (simp add: field_simps)
  finally have "of_int (c * 2 ^ nat (- e)) \<le> r / u" by simp
  then have "c * 2 ^ nat (- e) \<le> round_even (r / u)" by (rule round_even_ge)
  then have "real_of_int (c * 2 ^ nat (- e)) \<le> of_int (round_even (r / u))"
    by (simp only: of_int_le_iff)
  then have step: "of_int (c * 2 ^ nat (- e)) * u \<le> real_of_int (round_even (r / u)) * u"
    using u(1) by (intro mult_right_mono) simp_all
  have "(of_int c :: real) = of_int c * (u * of_int (2 ^ nat (- e)))"
    by (simp only: u(2) mult_1_right)
  also have "\<dots> = of_int (c * 2 ^ nat (- e)) * u" by (simp add: mult_ac)
  also note step
  finally have "of_int c \<le> real_of_int (round_even (r / u)) * u" .
  moreover have "round_double r = real_of_int (round_even (r / u)) * u"
    using False by (simp add: round_double_def Let_def u_def e_def)
  ultimately show ?thesis by simp
qed

lemma round_double_binade:
  assumes "r \<noteq> 0" and "2 powr of_int k \<le> \<bar>r\<bar>" and "\<bar>r\<bar> < 2 powr of_int (k + 1)"
  shows "round_double r =
           of_int (round_even (r / 2 powr of_int (max (k - 52) (- 1074))))
             * 2 powr of_int (max (k - 52) (- 1074))"
proof -
  have "\<lfloor>log 2 \<bar>r\<bar>\<rfloor> = k"
    using assms by (subst floor_log_eq_powr_iff) simp_all
  with assms(1) show ?thesis by (simp add: round_double_def Let_def)
qed

text \<open>
  The rounding on familiar values: \<open>0.1\<close> and \<open>1 / 3\<close> are rounded to the binary64 values
  that a C++ compiler gives these constants, and the sum of the doubles \<open>0.1\<close> and \<open>0.2\<close> is
  \<open>0.30000000000000004\<close>.
\<close>

lemma round_double_tenth: "round_double (1 / 10) = 3602879701896397 / 36028797018963968"
  by (subst round_double_binade [where k = "- 4"])
     (simp_all add: round_even_def powr_minus_divide Let_def)

lemma round_double_third: "round_double (1 / 3) = 6004799503160661 / 18014398509481984"
  by (subst round_double_binade [where k = "- 2"])
     (simp_all add: round_even_def powr_minus_divide Let_def)

lemma round_double_tenth_plus_fifth:
  "round_double (3602879701896397 / 36028797018963968 + 3602879701896397 / 18014398509481984)
     = 1351079888211149 / 4503599627370496"
  by (subst round_double_binade [where k = "- 2"])
     (simp_all add: round_even_def powr_minus_divide Let_def)

section \<open>Difference-combine generator\<close>

lemma combine_difference_range:
  assumes "0 \<le> x" "x < 1" "0 \<le> y" "y < 1"
  shows "0 \<le> combine_difference x y \<and> combine_difference x y \<le> 1"
proof -
  define d where "d = round_double (x - y)"
  have small: "\<bar>x - y\<bar> < 2 ^ 53" using assms by simp
  have "of_int (- 1) \<le> x - y" "x - y \<le> of_int 1" using assms by simp_all
  then have d: "- 1 \<le> d" "d \<le> 1"
    using round_double_ge [OF small, of "- 1"] round_double_le [OF small, of 1]
    by (simp_all add: d_def)
  show ?thesis
  proof (cases "d < 0")
    case True
    have s2: "\<bar>d + 1\<bar> < 2 ^ 53" using d by simp
    have "of_int 0 \<le> d + 1" "d + 1 \<le> of_int 1" using d True by simp_all
    then have "0 \<le> round_double (d + 1)" "round_double (d + 1) \<le> 1"
      using round_double_ge [OF s2, of 0] round_double_le [OF s2, of 1] by simp_all
    with True show ?thesis by (simp add: combine_difference_def d_def [symmetric])
  next
    case False
    with d show ?thesis by (simp add: combine_difference_def d_def [symmetric])
  qed
qed

lemma round_double_tiny: "round_double (- (1 / 1152921504606846976)) = - (1 / 1152921504606846976)"
  by (subst round_double_binade [where k = "- 60"])
     (simp_all add: round_even_def powr_minus_divide Let_def)

lemma round_double_below_one: "round_double (1152921504606846975 / 1152921504606846976) = 1"
  by (subst round_double_binade [where k = "- 1"])
     (simp_all add: round_even_def powr_minus_divide Let_def)

text \<open>
  C10 (as the code has it). Whenever the two wrapped generators return values in \<open>[0, 1)\<close>,
  the combined generator succeeds and its output lies in the closed interval \<open>[0, 1]\<close>.
\<close>

theorem CombineMethodgenerator_getNext_range:
  assumes "X_getNext sx = Inr (x, sx')" and "Y_getNext sy = Inr (y, sy')"
    and "0 \<le> x" "x < 1" "0 \<le> y" "y < 1"
  shows "\<exists>d. CombineMethodgenerator_getNext X_getNext Y_getNext (sx, sy) = Inr (d, (sx', sy'))
            \<and> 0 \<le> d \<and> d \<le> 1"
  using assms combine_difference_range [of x y]
  by (simp add: CombineMethodgenerator_getNext_def)

theorem CombineMethodgenerator_getNext_range_witness:
  "LinearCongruentialGenerator_getNext (LinearCongruentialGenerator_init 2147483647 16807 0 1)
     = Inr (16807 / 2147483647, LinearCongruentialGenerator_init 2147483647 16807 0 16807)
   \<and> LinearCongruentialGenerator_getNext (LinearCongruentialGenerator_init 2147483647 16807 0 2)
     = Inr (33614 / 2147483647, LinearCongruentialGenerator_init 2147483647 16807 0 33614)
   \<and> (0 :: real) \<le> 16807 / 2147483647 \<and> (16807 / 2147483647 :: real) < 1
   \<and> (0 :: real) \<le> 33614 / 2147483647 \<and> (33614 / 2147483647 :: real) < 1
   \<and> (\<exists>d. CombineMethodgenerator_getNext LinearCongruentialGenerator_getNext
              LinearCongruentialGenerator_getNext
              (LinearCongruentialGenerator_init 2147483647 16807 0 1,
               LinearCongruentialGenerator_init 2147483647 16807 0 2)
            = Inr (d, (LinearCongruentialGenerator_init 2147483647 16807 0 16807,
                       LinearCongruentialGenerator_init 2147483647 16807 0 33614))
          \<and> 0 \<le> d \<and> d \<le> 1)"
proof -
  have x: "LinearCongruentialGenerator_getNext (LinearCongruentialGenerator_init 2147483647 16807 0 1)
     = Inr (16807 / 2147483647, LinearCongruentialGenerator_init 2147483647 16807 0 16807)"
    by (simp add: LinearCongruentialGenerator_getNext_def LinearCongruentialGenerator_init_def
        to_double_def)
  have y: "LinearCongruentialGenerator_getNext (LinearCongruentialGenerator_init 2147483647 16807 0 2)
     = Inr (33614 / 2147483647, LinearCongruentialGenerator_init 2147483647 16807 0 33614)"
    by (simp add: LinearCongruentialGenerator_getNext_def LinearCongruentialGenerator_init_def
        to_double_def)
  show ?thesis
    using x y
      CombineMethodgenerator_getNext_range
        [where X_getNext = LinearCongruentialGenerator_getNext
           and Y_getNext = LinearCongruentialGenerator_getNext
           and sx = "LinearCongruentialGenerator_init 2147483647 16807 0 1"
           and sy = "LinearCongruentialGenerator_init 2147483647 16807 0 2"
           and x = "16807 / 2147483647" and y = "33614 / 2147483647"
           and sx' = "LinearCongruentialGenerator_init 2147483647 16807 0 16807"
           and sy' = "LinearCongruentialGenerator_init 2147483647 16807 0 33614"]
    by simp
qed

text \<open>
  The claim C10 as it is stated fails at the upper end. Two linear congruential generators
  with \<open>m = 2 ^ 60\<close>, \<open>a = 1\<close>, \<open>c = 0\<close> and the seeds \<open>0\<close> and \<open>1\<close> return \<open>0\<close> and \<open>2 ^ - 60\<close>,
  both in \<open>[0, 1)\<close> and both binary64 values. Their difference \<open>- 2 ^ - 60\<close> is negative, and
  \<open>- 2 ^ - 60 + 1\<close> is rounded to \<open>1\<close>, the nearest binary64 value: the combined output is \<open>1\<close>.
\<close>

theorem CombineMethodgenerator_getNext_counterexample:
  "LinearCongruentialGenerator_getNext (LinearCongruentialGenerator_init 1152921504606846976 1 0 0)
     = Inr (0, LinearCongruentialGenerator_init 1152921504606846976 1 0 0)
   \<and> LinearCongruentialGenerator_getNext (LinearCongruentialGenerator_init 1152921504606846976 1 0 1)
     = Inr (1 / 1152921504606846976, LinearCongruentialGenerator_init 1152921504606846976 1 0 1)
   \<and> CombineMethodgenerator_getNext LinearCongruentialGenerator_getNext
        LinearCongruentialGenerator_getNext
        (LinearCongruentialGenerator_init 1152921504606846976 1 0 0,
         LinearCongruentialGenerator_init 1152921504606846976 1 0 1)
     = Inr (1, (LinearCongruentialGenerator_init 1152921504606846976 1 0 0,
                LinearCongruentialGenerator_init 1152921504606846976 1 0 1))"
  by (simp add: CombineMethodgenerator_getNext_def LinearCongruentialGenerator_getNext_def
      LinearCongruentialGenerator_init_def to_double_def combine_difference_def
      round_double_tiny round_double_below_one)

section \<open>Histogram\<close>

subsection \<open>Values that binary64 represents\<close>

text \<open>
  An integer multiple \<open>c / 2 ^ j\<close> of a power of two with \<open>\<bar>c\<bar> < 2 ^ 53\<close> is a binary64 value,
  and is rounded to itself. A value of \<open>2 ^ - 1022\<close> or more is raised by the rounding by a
  factor of at most \<open>1 + 2 ^ - 53\<close>.
\<close>

lemma round_even_of_int [simp]: "round_even (of_int k) = k"
  by (simp add: round_even_def)

lemma round_even_upper: "real_of_int (round_even y) \<le> y + 1 / 2"
proof -
  have f: "real_of_int \<lfloor>y\<rfloor> \<le> y" by simp
  show ?thesis
  proof (cases "y - real_of_int \<lfloor>y\<rfloor> < 1 / 2")
    case True
    then have "round_even y = \<lfloor>y\<rfloor>" by (simp add: round_even_def Let_def)
    then have "real_of_int (round_even y) = real_of_int \<lfloor>y\<rfloor>" by (simp only:)
    with f show ?thesis by linarith
  next
    case False
    then have "round_even y \<le> \<lfloor>y\<rfloor> + 1" by (simp add: round_even_def Let_def)
    then have "real_of_int (round_even y) \<le> real_of_int \<lfloor>y\<rfloor> + 1"
      by (metis of_int_le_iff of_int_add of_int_1)
    with False show ?thesis by linarith
  qed
qed

lemma round_double_dyadic:
  assumes "\<bar>c\<bar> < 2 ^ 53" and "j \<le> 1074"
  shows "round_double (of_int c / 2 ^ j) = of_int c / 2 ^ j"
proof (cases "c = 0")
  case True
  then show ?thesis by (simp add: round_double_def)
next
  case False
  define r :: real where "r = of_int c / 2 ^ j"
  have r0: "r \<noteq> 0" using False by (simp add: r_def)
  define e where "e = max (\<lfloor>log 2 \<bar>r\<bar>\<rfloor> - 52) (- 1074)"
  have "\<bar>r\<bar> = real_of_int \<bar>c\<bar> / 2 ^ j" by (simp add: r_def abs_divide)
  also have "\<dots> < 2 ^ 53 / 2 ^ j"
  proof -
    have "real_of_int \<bar>c\<bar> < real_of_int (2 ^ 53)" using assms(1) by (simp only: of_int_less_iff)
    then show ?thesis by (simp add: divide_strict_right_mono)
  qed
  also have "\<dots> = 2 powr (53 - real j)"
    by (simp add: powr_diff powr_realpow)
  finally have "log 2 \<bar>r\<bar> < 53 - real j"
    using r0 by (simp add: log_less_iff)
  then have "\<lfloor>log 2 \<bar>r\<bar>\<rfloor> < 53 - int j" by (simp add: floor_less_iff)
  then have e: "e \<le> - int j" using assms(2) by (simp add: e_def)
  define n where "n = nat (- int j - e)"
  have u: "(2 :: real) powr of_int e = 1 / (2 ^ j * 2 ^ n)"
  proof -
    have "e = - int (j + n)" using e by (simp add: n_def)
    then have "(2 :: real) powr of_int e = 2 powr (- real (j + n))" by simp
    also have "\<dots> = 1 / 2 powr real (j + n)" by (rule powr_minus_divide)
    also have "(2 :: real) powr real (j + n) = 2 ^ (j + n)" by (simp only: powr_realpow zero_less_numeral)
    finally show ?thesis by (simp only: power_add)
  qed
  have q: "r / 2 powr of_int e = of_int (c * 2 ^ n)"
    by (simp add: u r_def)
  have "round_double r = of_int (round_even (r / 2 powr of_int e)) * 2 powr of_int e"
    using r0 by (simp add: round_double_def Let_def e_def)
  also have "\<dots> = of_int (c * 2 ^ n) * 2 powr of_int e"
    by (simp only: q round_even_of_int)
  also have "\<dots> = r" by (simp add: u r_def)
  finally show ?thesis by (simp add: r_def)
qed

lemma round_double_of_int: "\<bar>c\<bar> < 2 ^ 53 \<Longrightarrow> round_double (of_int c) = of_int c"
  using round_double_dyadic [of c 0] by simp

lemma round_double_relative:
  assumes "1 / 2 ^ 1022 \<le> x"
  shows "round_double x \<le> x * (1 + 1 / 2 ^ 53)"
proof -
  have "(0::real) < 1 / 2 ^ 1022" by (rule divide_pos_pos) simp_all
  then have x0: "0 < x" using assms by (rule less_le_trans)
  define E where "E = \<lfloor>log 2 x\<rfloor>"
  have "2 powr (- 1022) \<le> x" using assms by (simp add: powr_minus_divide)
  then have "- 1022 \<le> log 2 x" using x0 by (simp add: le_log_iff)
  then have E1: "- 1022 \<le> E" using x0 by (simp add: E_def le_floor_iff)
  have "2 powr of_int E \<le> x"
    using x0 floor_log_eq_powr_iff [of x 2 E] by (simp add: E_def)
  define u :: real where "u = 2 powr of_int (E - 52)"
  have e: "max (E - 52) (- 1074) = E - 52" using E1 by simp
  have u0: "0 < u" by (simp add: u_def)
  have "\<bar>x\<bar> = x" using x0 by simp
  then have "round_double x = of_int (round_even (x / u)) * u"
    using x0 by (simp add: round_double_def Let_def E_def [symmetric] e u_def)
  also have "\<dots> \<le> (x / u + 1 / 2) * u"
    using u0 round_even_upper [of "x / u"] by (intro mult_right_mono) simp_all
  also have "\<dots> = x + u / 2" using u0 by (simp add: field_simps)
  also have "u / 2 = 2 powr of_int E / 2 ^ 53"
    by (simp add: u_def powr_diff)
  also have "x + 2 powr of_int E / 2 ^ 53 \<le> x + x / 2 ^ 53"
    using \<open>2 powr of_int E \<le> x\<close> by (simp add: divide_right_mono)
  also have "\<dots> = x * (1 + 1 / 2 ^ 53)" by (simp add: algebra_simps)
  finally show ?thesis .
qed

subsection \<open>The counting loop\<close>

lemma bin_count_Nil [simp]: "bin_count [] lo hi sz i = 0"
  by (simp add: bin_count_def)

lemma bin_count_Cons:
  "bin_count (v # vs) lo hi sz i =
     (if lo \<le> v \<and> v \<le> hi \<and> histogram_interval v lo sz = Inr (int i) then 1 else 0)
     + bin_count vs lo hi sz i"
  by (simp add: bin_count_def)

lemma bin_count_le_length: "bin_count vs lo hi sz i \<le> length vs"
  by (simp add: bin_count_def)

lemma in_range_count_Nil [simp]: "in_range_count [] lo hi = 0"
  by (simp add: in_range_count_def)

lemma in_range_count_Cons:
  "in_range_count (v # vs) lo hi = (if lo \<le> v \<and> v \<le> hi then 1 else 0) + in_range_count vs lo hi"
  by (simp add: in_range_count_def)

lemma in_range_count_less:
  "\<exists>v \<in> set vs. \<not> (lo \<le> v \<and> v \<le> hi) \<Longrightarrow> in_range_count vs lo hi < length vs"
proof -
  assume "\<exists>v \<in> set vs. \<not> (lo \<le> v \<and> v \<le> hi)"
  then obtain v where "v \<in> set vs" "\<not> (lo \<le> v \<and> v \<le> hi)" by blast
  then show ?thesis unfolding in_range_count_def by (rule length_filter_less)
qed

lemma sum_list_increment:
  "k < length xs \<Longrightarrow> sum_list (xs[k := xs ! k + 1]) = sum_list xs + (1 :: int)"
proof (induction xs arbitrary: k)
  case Nil
  then show ?case by simp
next
  case (Cons x xs)
  then show ?case by (cases k) simp_all
qed

text \<open>
  When the loop ends without an error, the vector has its length, counter \<open>i\<close> has grown by
  the number of samples in the range whose index is \<open>i\<close>, and the counters together by the
  number of samples in the range.
\<close>

lemma histogram_loop_counts:
  "histogram_loop vs lo hi sz freq = Inr freq' \<Longrightarrow>
     length freq' = length freq
     \<and> (\<forall>i < length freq. freq' ! i = freq ! i + int (bin_count vs lo hi sz i))
     \<and> sum_list freq' = sum_list freq + int (in_range_count vs lo hi)"
proof (induction vs arbitrary: freq)
  case Nil
  then show ?case by simp
next
  case (Cons v vs)
  show ?case
  proof (cases "lo \<le> v \<and> v \<le> hi")
    case False
    with Cons.prems have "histogram_loop vs lo hi sz freq = Inr freq'" by simp
    from Cons.IH [OF this] False show ?thesis
      by (auto simp: bin_count_Cons in_range_count_Cons)
  next
    case True
    from Cons.prems True obtain k where idx: "histogram_interval v lo sz = Inr k"
      and k: "0 \<le> k" "k < int (length freq)"
      and rec: "histogram_loop vs lo hi sz (freq[nat k := freq ! nat k + 1]) = Inr freq'"
      by (auto split: sum.splits if_splits)
    note IH = Cons.IH [OF rec]
    have len: "length freq' = length freq" using IH by simp
    have nth: "freq' ! i = freq ! i + int (bin_count (v # vs) lo hi sz i)" if "i < length freq" for i
    proof -
      have "freq' ! i = (freq[nat k := freq ! nat k + 1]) ! i + int (bin_count vs lo hi sz i)"
        using IH that by simp
      moreover have "(freq[nat k := freq ! nat k + 1]) ! i
          = freq ! i + (if k = int i then 1 else 0)"
        using that k by (auto simp: nth_list_update)
      ultimately show ?thesis using True idx by (simp add: bin_count_Cons)
    qed
    have "sum_list (freq[nat k := freq ! nat k + 1]) = sum_list freq + 1"
      using k by (simp add: sum_list_increment)
    then have "sum_list freq' = sum_list freq + int (in_range_count (v # vs) lo hi)"
      using IH True by (simp add: in_range_count_Cons)
    with len nth show ?thesis by simp
  qed
qed

text \<open>
  The loop ends without an error when the index of every sample in the range is inside the
  vector and no counter is incremented beyond \<open>2 ^ 31 - 1\<close>.
\<close>

lemma histogram_loop_returns:
  assumes "\<forall>v \<in> set vs. lo \<le> v \<and> v \<le> hi \<longrightarrow>
             (\<exists>k. histogram_interval v lo sz = Inr k \<and> 0 \<le> k \<and> k < int (length freq))"
    and "\<forall>i < length freq. freq ! i + int (bin_count vs lo hi sz i) \<le> 2147483647"
  shows "\<exists>freq'. histogram_loop vs lo hi sz freq = Inr freq'"
  using assms
proof (induction vs arbitrary: freq)
  case Nil
  then show ?case by simp
next
  case (Cons v vs)
  show ?case
  proof (cases "lo \<le> v \<and> v \<le> hi")
    case False
    have "\<forall>i < length freq. freq ! i + int (bin_count vs lo hi sz i) \<le> 2147483647"
      using Cons.prems(2) False by (auto simp: bin_count_Cons)
    moreover have "\<forall>v \<in> set vs. lo \<le> v \<and> v \<le> hi \<longrightarrow>
             (\<exists>k. histogram_interval v lo sz = Inr k \<and> 0 \<le> k \<and> k < int (length freq))"
      using Cons.prems(1) by simp
    ultimately obtain freq' where "histogram_loop vs lo hi sz freq = Inr freq'"
      using Cons.IH [of freq] by blast
    with False show ?thesis by auto
  next
    case True
    with Cons.prems(1) obtain k where idx: "histogram_interval v lo sz = Inr k"
      and k: "0 \<le> k" "k < int (length freq)"
      by auto
    have nk: "nat k < length freq" and ik: "int (nat k) = k" using k by simp_all
    have "bin_count (v # vs) lo hi sz (nat k) = 1 + bin_count vs lo hi sz (nat k)"
      using True idx ik by (simp add: bin_count_Cons)
    moreover have "freq ! nat k + int (bin_count (v # vs) lo hi sz (nat k)) \<le> 2147483647"
      using Cons.prems(2) nk by blast
    ultimately have ne: "freq ! nat k \<noteq> 2147483647" by simp
    have "\<forall>i < length (freq[nat k := freq ! nat k + 1]).
            (freq[nat k := freq ! nat k + 1]) ! i + int (bin_count vs lo hi sz i) \<le> 2147483647"
    proof (intro allI impI)
      fix i
      assume "i < length (freq[nat k := freq ! nat k + 1])"
      then have i: "i < length freq" by simp
      with Cons.prems(2) have "freq ! i + int (bin_count (v # vs) lo hi sz i) \<le> 2147483647"
        by blast
      moreover have "bin_count (v # vs) lo hi sz i
          = (if k = int i then 1 else 0) + bin_count vs lo hi sz i"
        using True idx by (simp add: bin_count_Cons)
      ultimately show "(freq[nat k := freq ! nat k + 1]) ! i + int (bin_count vs lo hi sz i)
          \<le> 2147483647"
        using i k by (cases "i = nat k") auto
    qed
    moreover have "\<forall>v \<in> set vs. lo \<le> v \<and> v \<le> hi \<longrightarrow>
        (\<exists>k'. histogram_interval v lo sz = Inr k' \<and> 0 \<le> k'
              \<and> k' < int (length (freq[nat k := freq ! nat k + 1])))"
      using Cons.prems(1) by simp
    ultimately obtain freq' where
      "histogram_loop vs lo hi sz (freq[nat k := freq ! nat k + 1]) = Inr freq'"
      using Cons.IH [of "freq[nat k := freq ! nat k + 1]"] by blast
    with True idx k ne show ?thesis by simp
  qed
qed

lemma sum_list_map_nth_upt:
  "sum_list (map (\<lambda>i. g (xs ! i)) [0 ..< length xs]) = sum_list (map g xs)"
proof -
  have "map (\<lambda>i. g (xs ! i)) [0 ..< length xs] = map g (map ((!) xs) [0 ..< length xs])"
    by simp
  then show ?thesis by (simp only: map_nth)
qed

text \<open>
  Fewer than \<open>2 ^ 53\<close> samples: their number is a double, and the frequency is the quotient
  of the count by it, rounded once. The rounding raises a quotient by a factor of at most
  \<open>1 + 2 ^ - 53\<close>.
\<close>

lemma relative_frequency_value:
  assumes "0 < n" and "n < 2 ^ 53" and "0 \<le> k" and "k \<le> int n"
  shows "relative_frequency k n = Num (round_double (real_of_int k / real n))"
proof -
  have "\<bar>int n\<bar> < 2 ^ 53" using assms(2) by simp
  then have "round_double (real_of_int (int n)) = real_of_int (int n)"
    by (rule round_double_of_int)
  then have rn: "round_double (real n) = real n" by simp
  have "real n < 2 ^ 53" using assms(2) by (metis of_nat_less_iff of_nat_numeral of_nat_power)
  then have "real n < 2 ^ 1024" by (rule less_trans) simp
  then have n: "ieee_round (real n) = Num (real n)"
    by (simp add: ieee_round_def rn)
  define q where "q = real_of_int k / real n"
  have q: "0 \<le> q" "q \<le> 1" using assms by (simp_all add: q_def)
  then have small: "\<bar>q\<bar> < 2 ^ 53" by simp
  have "of_int 0 \<le> round_double q" using q(1) by (intro round_double_ge [OF small]) simp
  moreover have "round_double q \<le> of_int 1" using q(2) by (intro round_double_le [OF small]) simp
  ultimately have "\<bar>round_double q\<bar> < 2 ^ 1024" by simp
  then have "ieee_round q = Num (round_double q)" by (simp add: ieee_round_def)
  with n assms(1) show ?thesis by (simp add: relative_frequency_def q_def)
qed

lemma round_double_quotient_le:
  assumes "0 < n" and "n < 2 ^ 53" and "0 \<le> k"
  shows "round_double (real_of_int k / real n) \<le> (1 + 1 / 2 ^ 53) * (real_of_int k / real n)"
proof (cases "k = 0")
  case True
  then show ?thesis by (simp add: round_double_def)
next
  case False
  with assms(3) have k1: "1 \<le> real_of_int k" by simp
  have n53: "real n \<le> 2 ^ 53" using assms(2) by (metis less_imp_le of_nat_le_iff of_nat_numeral of_nat_power)
  have "(1 :: real) / 2 ^ 1022 \<le> 1 / 2 ^ 53" by simp
  also have "\<dots> \<le> 1 / real n" using assms(1) n53 by (simp add: frac_le)
  also have "\<dots> \<le> real_of_int k / real n" using k1 assms(1) by (simp add: divide_right_mono)
  finally have "round_double (real_of_int k / real n)
      \<le> real_of_int k / real n * (1 + 1 / 2 ^ 53)"
    by (rule round_double_relative)
  then show ?thesis by (simp add: mult.commute)
qed

lemma sum_list_round_double_le:
  assumes "0 < n" and "n < 2 ^ 53" and "\<forall>k \<in> set ks. 0 \<le> k"
  shows "sum_list (map (\<lambda>k. round_double (real_of_int k / real n)) ks)
           \<le> (1 + 1 / 2 ^ 53) * (real_of_int (sum_list ks) / real n)"
  using assms(3)
proof (induction ks)
  case Nil
  then show ?case by simp
next
  case (Cons k ks)
  have "round_double (real_of_int k / real n) \<le> (1 + 1 / 2 ^ 53) * (real_of_int k / real n)"
    using Cons.prems by (intro round_double_quotient_le [OF assms(1,2)]) simp
  moreover have "sum_list (map (\<lambda>k. round_double (real_of_int k / real n)) ks)
           \<le> (1 + 1 / 2 ^ 53) * (real_of_int (sum_list ks) / real n)"
    using Cons by simp
  ultimately show ?case by (simp add: add_divide_distrib distrib_left)
qed

subsection \<open>The printed frequencies\<close>

text \<open>
  An operation whose exact result is \<open>c / 2 ^ j\<close> with \<open>\<bar>c\<bar> < 2 ^ 53\<close> returns it as a number.
  That is the arithmetic of \<^verbatim>\<open>histogram\<close> on the range \<open>[0, 1]\<close> with four intervals: the
  interval size and the quotients are powers of two and their multiples, and no operation
  rounds.
\<close>

lemma ieee_round_dyadic:
  assumes "\<bar>c\<bar> < 2 ^ 53" and "j \<le> 1074"
  shows "ieee_round (of_int c / 2 ^ j) = Num (of_int c / 2 ^ j)"
proof -
  have "\<bar>real_of_int c\<bar> < 2 ^ 53"
    using assms(1) by (metis of_int_abs of_int_less_iff of_int_numeral of_int_power)
  moreover have "\<bar>real_of_int c / 2 ^ j\<bar> \<le> \<bar>real_of_int c\<bar>"
    by (simp add: field_simps mult_le_cancel_left1)
  moreover have "(2::real) ^ 53 \<le> 2 ^ 1024" by (rule power_increasing) simp_all
  ultimately have "\<not> 2 ^ 1024 \<le> \<bar>real_of_int c / 2 ^ j\<bar>" by linarith
  then show ?thesis
    by (simp only: ieee_round_def round_double_dyadic [OF assms] Let_def if_False)
qed

lemma ieee_round_values:
  "ieee_round 0 = Num 0" "ieee_round 1 = Num 1" "ieee_round 2 = Num 2" "ieee_round 3 = Num 3"
  "ieee_round 4 = Num 4" "ieee_round (1 / 4) = Num (1 / 4)" "ieee_round (1 / 2) = Num (1 / 2)"
  "ieee_round (3 / 4) = Num (3 / 4)" "ieee_round (5 / 8) = Num (5 / 8)"
  "ieee_round (5 / 2) = Num (5 / 2)"
  using ieee_round_dyadic [of 0 0] ieee_round_dyadic [of 1 0] ieee_round_dyadic [of 2 0]
    ieee_round_dyadic [of 3 0] ieee_round_dyadic [of 4 0] ieee_round_dyadic [of 1 2]
    ieee_round_dyadic [of 1 1] ieee_round_dyadic [of 3 2] ieee_round_dyadic [of 5 3]
    ieee_round_dyadic [of 5 1]
  by simp_all

lemma replicate_4: "replicate 4 x = [x, x, x, x]"
  by (simp add: numeral_eq_Suc)

lemma replicate_3: "replicate 3 x = [x, x, x]"
  by (simp add: numeral_eq_Suc)

lemma histogram_intervalSize_quarter: "histogram_intervalSize 0 1 4 = Num (1 / 4)"
  by (simp add: histogram_intervalSize_def ieee_round_values)

lemma histogram_interval_quarter:
  "histogram_interval (1 / 4) 0 (Num (1 / 4)) = Inr 1"
  "histogram_interval (5 / 8) 0 (Num (1 / 4)) = Inr 2"
  "histogram_interval 1 0 (Num (1 / 4)) = Inr 4"
  by (simp_all add: histogram_interval_def ieee_round_values double_to_int_def)

text \<open>
  C7. Let the number of intervals be non-negative, let the index that line 185 computes for
  each sample in \<open>[minRange, maxRange]\<close> be an index of the vector, and let no interval hold
  more than \<open>2 ^ 31 - 1\<close> samples (the call has defined behaviour). Then \<open>histogram\<close> prints
  one line per interval, and the frequency on line \<open>i\<close> is the binary64 quotient of the number
  of samples counted in interval \<open>i\<close> by the number of all samples, the samples outside the
  range included. With at least one and fewer than \<open>2 ^ 53\<close> samples that is the exact
  quotient rounded to the nearest double. If a sample lies outside the range and there are
  fewer than \<open>2 ^ 53\<close> samples, every printed frequency is a number and their sum is below
  \<open>1\<close>.
\<close>

theorem histogram_relative_frequencies:
  assumes "0 \<le> numIntervals"
    and "\<forall>v \<in> set randomValues. minRange \<le> v \<and> v \<le> maxRange \<longrightarrow>
           (\<exists>k. histogram_interval v minRange
                   (histogram_intervalSize minRange maxRange numIntervals) = Inr k
                 \<and> 0 \<le> k \<and> k < numIntervals)"
    and "\<forall>i < nat numIntervals.
           bin_count randomValues minRange maxRange
             (histogram_intervalSize minRange maxRange numIntervals) i \<le> 2147483647"
  shows "\<exists>rows. histogram randomValues minRange maxRange numIntervals = Inr rows
       \<and> length rows = nat numIntervals
       \<and> (\<forall>i < nat numIntervals.
            snd (snd (rows ! i)) =
              ieee_div
                (Num (real (bin_count randomValues minRange maxRange
                              (histogram_intervalSize minRange maxRange numIntervals) i)))
                (ieee_round (real (length randomValues))))
       \<and> (0 < length randomValues \<and> length randomValues < 2 ^ 53 \<longrightarrow>
            (\<forall>i < nat numIntervals.
               snd (snd (rows ! i)) =
                 Num (round_double
                        (real (bin_count randomValues minRange maxRange
                                 (histogram_intervalSize minRange maxRange numIntervals) i)
                         / real (length randomValues)))))
       \<and> ((\<exists>v \<in> set randomValues. \<not> (minRange \<le> v \<and> v \<le> maxRange))
             \<and> length randomValues < 2 ^ 53 \<longrightarrow>
            (\<exists>fs. map (\<lambda>row. snd (snd row)) rows = map Num fs \<and> sum_list fs < 1))"
proof -
  define sz where "sz = histogram_intervalSize minRange maxRange numIntervals"
  define n where "n = nat numIntervals"
  define N where "N = length randomValues"
  have n: "int n = numIntervals" using assms(1) by (simp add: n_def)
  have "\<forall>v \<in> set randomValues. minRange \<le> v \<and> v \<le> maxRange \<longrightarrow>
          (\<exists>k. histogram_interval v minRange sz = Inr k \<and> 0 \<le> k
                \<and> k < int (length (replicate n (0 :: int))))"
    using assms(2) by (simp add: sz_def n)
  moreover have "\<forall>i < length (replicate n (0 :: int)).
          replicate n (0 :: int) ! i + int (bin_count randomValues minRange maxRange sz i)
            \<le> 2147483647"
    using assms(3) by (simp add: sz_def n_def)
  ultimately obtain freq where
    loop: "histogram_loop randomValues minRange maxRange sz (replicate n 0) = Inr freq"
    using histogram_loop_returns [of randomValues minRange maxRange sz "replicate n 0"] by blast
  from histogram_loop_counts [OF loop]
  have len: "length freq = n"
    and nth: "\<And>i. i < n \<Longrightarrow> freq ! i = int (bin_count randomValues minRange maxRange sz i)"
    and total: "sum_list freq = int (in_range_count randomValues minRange maxRange)"
    by (simp_all add: sum_list_replicate)
  define rows where "rows = map (\<lambda>i. (ieee_add (Num minRange) (ieee_mul (Num (real i)) sz),
        ieee_add (Num minRange) (ieee_mul (Num (real i + 1)) sz),
        relative_frequency (freq ! i) N)) [0 ..< n]"
  have 0: "histogram randomValues minRange maxRange numIntervals = Inr rows"
    using assms(1) loop
    by (simp add: histogram_def Let_def sz_def [symmetric] n_def [symmetric] N_def rows_def)
  have 1: "length rows = nat numIntervals"
    by (simp add: rows_def n_def)
  have 2: "snd (snd (rows ! i)) =
      ieee_div (Num (real (bin_count randomValues minRange maxRange sz i))) (ieee_round (real N))"
    if "i < n" for i
    using that nth by (simp add: rows_def relative_frequency_def)
  have 3: "snd (snd (rows ! i)) =
      Num (round_double (real (bin_count randomValues minRange maxRange sz i) / real N))"
    if "i < n" and N: "0 < N" "N < 2 ^ 53" for i
  proof -
    have "bin_count randomValues minRange maxRange sz i \<le> N"
      unfolding N_def by (rule bin_count_le_length)
    then have "relative_frequency (int (bin_count randomValues minRange maxRange sz i)) N
        = Num (round_double (real_of_int (int (bin_count randomValues minRange maxRange sz i))
                             / real N))"
      by (intro relative_frequency_value [OF N]) simp_all
    with that nth show ?thesis by (simp add: rows_def)
  qed
  have 4: "\<exists>fs. map (\<lambda>row. snd (snd row)) rows = map Num fs \<and> sum_list fs < 1"
    if out: "\<exists>v \<in> set randomValues. \<not> (minRange \<le> v \<and> v \<le> maxRange)" and N53: "N < 2 ^ 53"
  proof -
    from out have N0: "0 < N" by (auto simp: N_def)
    define fs where "fs = map (\<lambda>i. round_double (real_of_int (freq ! i) / real N)) [0 ..< length freq]"
    have a: "map (\<lambda>row. snd (snd row)) rows = map Num fs"
    proof (rule nth_equalityI)
      show "length (map (\<lambda>row. snd (snd row)) rows) = length (map Num fs)"
        by (simp add: rows_def fs_def len)
      fix i
      assume "i < length (map (\<lambda>row. snd (snd row)) rows)"
      then have i: "i < n" by (simp add: rows_def)
      from 3 [OF i N0 N53] i nth show "map (\<lambda>row. snd (snd row)) rows ! i = map Num fs ! i"
        by (simp add: fs_def len rows_def)
    qed
    have nonneg: "\<forall>k \<in> set freq. 0 \<le> k"
    proof
      fix k
      assume "k \<in> set freq"
      then obtain i where "i < length freq" "k = freq ! i" by (auto simp: in_set_conv_nth)
      with nth len show "0 \<le> k" by simp
    qed
    have "sum_list fs = sum_list (map (\<lambda>k. round_double (real_of_int k / real N)) freq)"
      unfolding fs_def
      by (rule sum_list_map_nth_upt [where g = "\<lambda>k. round_double (real_of_int k / real N)"])
    also have "\<dots> \<le> (1 + 1 / 2 ^ 53) * (real_of_int (sum_list freq) / real N)"
      by (rule sum_list_round_double_le [OF N0 N53 nonneg])
    finally have b: "sum_list fs
        \<le> (1 + 1 / 2 ^ 53) * (real (in_range_count randomValues minRange maxRange) / real N)"
      by (simp add: total)
    define a where "a = real (in_range_count randomValues minRange maxRange)"
    have "in_range_count randomValues minRange maxRange < N"
      unfolding N_def using out by (rule in_range_count_less)
    then have a1: "a + 1 \<le> real N" by (simp add: a_def)
    have N53': "real N < 2 ^ 53" using N53 by (metis of_nat_less_iff of_nat_numeral of_nat_power)
    define c :: real where "c = 2 ^ 53"
    have c: "0 < c" "real N < c" using N53' by (simp_all add: c_def)
    have "(1 + 1 / c) * a \<le> (1 + 1 / c) * (real N - 1)"
      using a1 c(1) by (intro mult_left_mono) simp_all
    also have "\<dots> = real N - 1 + (real N - 1) / c" by (simp add: distrib_right)
    also have "\<dots> < real N - 1 + 1" using c by simp
    finally have "(1 + 1 / c) * a < real N" by simp
    then have "(1 + 1 / 2 ^ 53) * a < real N" by (simp only: c_def)
    then have "(1 + 1 / 2 ^ 53) * (a / real N) < 1"
      using N0 by (simp add: field_simps)
    with b have c: "sum_list fs < 1" by (simp add: a_def)
    from a c show ?thesis by blast
  qed
  from 0 1 2 3 4 show ?thesis unfolding sz_def n_def N_def by blast
qed

theorem histogram_relative_frequencies_witness:
  "histogram_interval (1 / 4) 0 (histogram_intervalSize 0 1 4) = Inr 1
   \<and> histogram_interval (5 / 8) 0 (histogram_intervalSize 0 1 4) = Inr 2
   \<and> bin_count [1 / 4, 5 / 8, 3 / 2, 2] 0 1 (histogram_intervalSize 0 1 4) 0 = 0
   \<and> bin_count [1 / 4, 5 / 8, 3 / 2, 2] 0 1 (histogram_intervalSize 0 1 4) 1 = 1
   \<and> bin_count [1 / 4, 5 / 8, 3 / 2, 2] 0 1 (histogram_intervalSize 0 1 4) 2 = 1
   \<and> bin_count [1 / 4, 5 / 8, 3 / 2, 2] 0 1 (histogram_intervalSize 0 1 4) 3 = 0
   \<and> (2 :: real) \<in> set [1 / 4, 5 / 8, 3 / 2, 2] \<and> \<not> (2 :: real) \<le> 1
   \<and> histogram [1 / 4, 5 / 8, 3 / 2, 2] 0 1 4
       = Inr [(Num 0, Num (1 / 4), Num 0), (Num (1 / 4), Num (1 / 2), Num (1 / 4)),
              (Num (1 / 2), Num (3 / 4), Num (1 / 4)), (Num (3 / 4), Num 1, Num 0)]
   \<and> sum_list [0, 1 / 4, 1 / 4, 0 :: real] < 1"
proof -
  have h1: "(0::int) \<le> 4" by simp
  have h2: "\<forall>v \<in> set [1 / 4, 5 / 8, 3 / 2, 2 :: real]. 0 \<le> v \<and> v \<le> 1 \<longrightarrow>
           (\<exists>k. histogram_interval v 0 (histogram_intervalSize 0 1 4) = Inr k
                 \<and> 0 \<le> k \<and> k < 4)"
    by (simp add: histogram_intervalSize_quarter histogram_interval_quarter)
  have h3: "\<forall>i < nat 4. bin_count [1 / 4, 5 / 8, 3 / 2, 2] 0 1
              (histogram_intervalSize 0 1 4) i \<le> 2147483647"
  proof (intro allI impI)
    fix i
    have "bin_count [1 / 4, 5 / 8, 3 / 2, 2] 0 1 (histogram_intervalSize 0 1 4) i
            \<le> length [1 / 4, 5 / 8, 3 / 2, 2 :: real]"
      by (rule bin_count_le_length)
    then show "bin_count [1 / 4, 5 / 8, 3 / 2, 2] 0 1 (histogram_intervalSize 0 1 4) i
            \<le> 2147483647"
      by simp
  qed
  have h: "histogram [1 / 4, 5 / 8, 3 / 2, 2] 0 1 4
        = Inr [(Num 0, Num (1 / 4), Num 0), (Num (1 / 4), Num (1 / 2), Num (1 / 4)),
               (Num (1 / 2), Num (3 / 4), Num (1 / 4)), (Num (3 / 4), Num 1, Num 0)]"
    by (simp add: histogram_def histogram_intervalSize_quarter histogram_interval_quarter
        replicate_4 numeral_2_eq_2 numeral_3_eq_3
        relative_frequency_def ieee_round_values upt_conv_Cons Let_def)
  show ?thesis
    using h histogram_relative_frequencies [OF h1 h2 h3]
    by (simp add: bin_count_def histogram_intervalSize_quarter histogram_interval_quarter)
qed

text \<open>
  The interval size of three intervals on \<open>[0, 1]\<close> is the double nearest to \<open>1 / 3\<close>, which
  is below \<open>1 / 3\<close>. A sample equal to it has the quotient \<open>1\<close> and is counted in interval
  \<open>1\<close>. The largest double below \<open>1\<close> has a quotient that is rounded to \<open>3\<close>.
\<close>

lemma round_double_below_three:
  "round_double (18014398509481982 / 6004799503160661) = 3"
  by (subst round_double_binade [where k = 1])
     (simp_all add: round_even_def powr_minus_divide Let_def)

lemma ieee_round_third: "ieee_round (1 / 3) = Num (6004799503160661 / 18014398509481984)"
  by (simp add: ieee_round_def round_double_third)

lemma ieee_round_below_three: "ieee_round (18014398509481982 / 6004799503160661) = Num 3"
  by (simp add: ieee_round_def round_double_below_three)

lemma histogram_intervalSize_third:
  "histogram_intervalSize 0 1 3 = Num (6004799503160661 / 18014398509481984)"
  by (simp add: histogram_intervalSize_def ieee_round_values ieee_round_third)

lemma histogram_interval_nearest_third:
  "histogram_interval (6004799503160661 / 18014398509481984) 0 (histogram_intervalSize 0 1 3)
     = Inr 1"
  using ieee_round_dyadic [of 6004799503160661 54]
  by (simp add: histogram_intervalSize_third histogram_interval_def ieee_round_values
      double_to_int_def)

lemma histogram_interval_below_one:
  "histogram_interval (9007199254740991 / 9007199254740992) 0 (histogram_intervalSize 0 1 3)
     = Inr 3"
  using ieee_round_dyadic [of 9007199254740991 53]
  by (simp add: histogram_intervalSize_third histogram_interval_def ieee_round_below_three
      double_to_int_def)

text \<open>
  X5. The index can leave the vector for a sample below \<open>maxRange\<close> too: with three
  intervals on \<open>[0, 1]\<close> the largest double below \<open>1\<close>, \<open>1 - 2 ^ - 53\<close>, has the index \<open>3\<close>.
\<close>

theorem histogram_sample_below_maxRange_out_of_range:
  "histogram [9007199254740991 / 9007199254740992] 0 1 3 = Inl IndexOutOfRange"
  by (simp add: histogram_def histogram_interval_below_one replicate_3)

text \<open>
  C1 (where the code departs from it). With \<open>minRange = 0\<close>, \<open>maxRange = 1\<close> and four
  intervals the interval size is \<open>1 / 4\<close>. The sample \<open>1\<close> passes the test
  \<open>randomValue \<le> maxRange\<close>, its index is \<open>1 / (1 / 4) = 4\<close>, and the vector has the indices
  \<open>0\<close> to \<open>3\<close>: the index is not clamped and the increment is outside the vector. (All the
  values are powers of two, so the double arithmetic is exact here.)
\<close>

theorem histogram_maxRange_sample_out_of_range:
  "histogram [1] 0 1 4 = Inl IndexOutOfRange"
  by (simp add: histogram_def histogram_intervalSize_quarter histogram_interval_quarter
      replicate_4)

end
